theory Spec2Isabelle
  imports Complex_Main "HOL-Library.Word"
begin

unbundle bit_operations_syntax

section \<open>Strings\<close>

text \<open>
  Python strings are sequences of code points. The strings of the program (combos, tokens,
  identifiers, the text of the configuration file) are modelled as \<^typ>\<open>string\<close>, a
  \<^typ>\<open>char\<close> standing for the code point of the same number: the model covers the
  strings of the Latin-1 range. On that range \<open>str.strip()\<close> and \<open>str.lower()\<close> are as
  below and stay inside it; \<open>str.upper()\<close> can leave it and can lengthen the string, so
  its result is a list of code points.
\<close>

definition is_space :: "char \<Rightarrow> bool" where
  \<comment> \<open>what \<open>str.strip()\<close> removes: TAB..CR, FS..US, the blank, NEL and the no-break space\<close>
  "is_space c =
     (let n = (of_char c :: nat)
      in (9 \<le> n \<and> n \<le> 13) \<or> (28 \<le> n \<and> n \<le> 32) \<or> n = 133 \<or> n = 160)"

definition strip :: "string \<Rightarrow> string" where
  "strip s = rev (dropWhile is_space (rev (dropWhile is_space s)))"

definition lower_char :: "char \<Rightarrow> char" where
  \<comment> \<open>A..Z and the capital letters U+00C0..U+00DE, the multiplication sign apart\<close>
  "lower_char c =
     (let n = (of_char c :: nat)
      in if (65 \<le> n \<and> n \<le> 90) \<or> (192 \<le> n \<and> n \<le> 222 \<and> n \<noteq> 215) then char_of (n + 32)
         else c)"

definition upper_char :: "char \<Rightarrow> nat list" where
  \<comment> \<open>a..z and U+00E0..U+00FE, the division sign apart; the micro sign becomes U+039C,
     the sharp s becomes SS, y with diaeresis becomes U+0178\<close>
  "upper_char c =
     (let n = (of_char c :: nat)
      in if (97 \<le> n \<and> n \<le> 122) \<or> (224 \<le> n \<and> n \<le> 254 \<and> n \<noteq> 247) then [n - 32]
         else if n = 181 then [924]
         else if n = 223 then [83, 83]
         else if n = 255 then [376]
         else [n])"

definition lower :: "string \<Rightarrow> string" where
  "lower s = map lower_char s"

definition code_points :: "string \<Rightarrow> nat list" where
  "code_points s = map of_char s"

definition upper :: "string \<Rightarrow> nat list" where
  "upper s = concat (map upper_char s)"

text \<open>\<open>s.split("+")\<close>: the pieces between the separators, at least one piece.\<close>

fun split_plus :: "string \<Rightarrow> string list" where
  "split_plus [] = [[]]"
| "split_plus (c # cs) =
     (if c = CHR ''+'' then [] # split_plus cs
      else (case split_plus cs of
              [] \<Rightarrow> [[c]]
            | t # ts \<Rightarrow> (c # t) # ts))"

section \<open>Key combinations\<close>

text \<open>
  \<open>parse_key_combination\<close>: the loop body on one part, with the pair
  \<open>(modifiers, key)\<close> as the loop state, and the loop as a left fold over the parts.
\<close>

definition parse_part :: "string list \<times> string option \<Rightarrow> string \<Rightarrow> string list \<times> string option" where
  "parse_part acc part0 =
     (let part = lower (strip part0); modifiers = fst acc; key = snd acc in
      if part \<in> set [''ctrl'', ''control''] then (modifiers @ [''ctrl''], key)
      else if part \<in> set [''shift''] then (modifiers @ [''shift''], key)
      else if part \<in> set [''alt''] then (modifiers @ [''alt''], key)
      else (modifiers, Some part))"

definition parse_key_combination :: "string \<Rightarrow> string list \<times> string option" where
  "parse_key_combination combo = foldl parse_part ([], None) (split_plus combo)"

section \<open>The Qt binding\<close>

text \<open>The exceptions of the model.\<close>

datatype exc = Struct_error | OS_error | Decode_error | Attribute_error

text \<open>
  Which names the binding gives to \<open>Qt\<close> and to \<open>QKeyEvent\<close> depends on the binding in
  use (PyQt6 itself scopes its enumerations, a compatibility layer may add the old names),
  so both are parameters: \<open>qt_has\<close> holds of the attribute names of \<open>Qt\<close>, given as code
  points, \<open>qkeyevent_has\<close> of those of \<open>QKeyEvent\<close>. A key code is kept symbolic, as the
  value of the attribute of that name; every key code is truthy. The scoped names
  \<open>Qt.KeyboardModifier.NoModifier\<close>, \<open>ControlModifier\<close>, \<open>ShiftModifier\<close> and
  \<open>AltModifier\<close> are those of the PyQt6 the module imports.
\<close>

record qt_binding =
  qt_has :: "nat list \<Rightarrow> bool"
  qkeyevent_has :: "string \<Rightarrow> bool"

datatype key_code = Key_attr "nat list"

text \<open>\<open>Qt.name\<close>: plain attribute access raises \<open>AttributeError\<close> on a missing name.\<close>

definition qt_attribute :: "qt_binding \<Rightarrow> string \<Rightarrow> exc + key_code" where
  "qt_attribute b name =
     (if qt_has b (code_points name) then Inr (Key_attr (code_points name))
      else Inl Attribute_error)"

text \<open>\<open>getattr(Qt, name, None)\<close>: a missing name gives \<open>None\<close>.\<close>

definition qt_getattr :: "qt_binding \<Rightarrow> nat list \<Rightarrow> key_code option" where
  "qt_getattr b name = (if qt_has b name then Some (Key_attr name) else None)"

text \<open>The entries of the \<open>special_keys\<close> dictionary: the key name and the attribute read.\<close>

definition special_key_names :: "(string \<times> string) list" where
  "special_key_names =
     [(''space'', ''Key_Space''), (''return'', ''Key_Return''), (''enter'', ''Key_Enter''),
      (''backspace'', ''Key_Backspace''), (''delete'', ''Key_Delete''),
      (''escape'', ''Key_Escape''), (''tab'', ''Key_Tab''), (''up'', ''Key_Up''),
      (''down'', ''Key_Down''), (''left'', ''Key_Left''), (''right'', ''Key_Right''),
      (''home'', ''Key_Home''), (''end'', ''Key_End''), (''pageup'', ''Key_PageUp''),
      (''pagedown'', ''Key_PageDown''),
      (''f1'', ''Key_F1''), (''f2'', ''Key_F2''), (''f3'', ''Key_F3''), (''f4'', ''Key_F4''),
      (''f5'', ''Key_F5''), (''f6'', ''Key_F6''), (''f7'', ''Key_F7''), (''f8'', ''Key_F8''),
      (''f9'', ''Key_F9''), (''f10'', ''Key_F10''), (''f11'', ''Key_F11''), (''f12'', ''Key_F12'')]"

text \<open>
  Building the dictionary evaluates every attribute in order; the first one missing
  raises.
\<close>

fun build_special_keys :: "qt_binding \<Rightarrow> (string \<times> string) list \<Rightarrow> exc + (string \<times> key_code) list" where
  "build_special_keys b [] = Inr []"
| "build_special_keys b ((k, a) # rest) =
     (case qt_attribute b a of
        Inl x \<Rightarrow> Inl x
      | Inr v \<Rightarrow>
          (case build_special_keys b rest of
             Inl x \<Rightarrow> Inl x
           | Inr t \<Rightarrow> Inr ((k, v) # t)))"

definition get_key_code :: "qt_binding \<Rightarrow> string \<Rightarrow> exc + key_code option" where
  "get_key_code b key =
     (let key_lower = lower key in
      if length key = 1 then Inr (qt_getattr b (code_points ''Key_'' @ upper key))
      else (case build_special_keys b special_key_names of
              Inl x \<Rightarrow> Inl x
            | Inr special_keys \<Rightarrow> Inr (map_of special_keys key_lower)))"

datatype keyboard_modifier = ControlModifier | ShiftModifier | AltModifier

datatype qevent_type = KeyPress | KeyRelease

text \<open>A synthesized \<open>QKeyEvent\<close>: its type, key code and modifier flags.\<close>

type_synonym key_event = "qevent_type \<times> key_code \<times> keyboard_modifier set"

text \<open>\<open>QKeyEvent.KeyPress\<close> and \<open>QKeyEvent.KeyRelease\<close>, by plain attribute access.\<close>

definition qkeyevent_attribute :: "qt_binding \<Rightarrow> string \<Rightarrow> qevent_type \<Rightarrow> exc + qevent_type" where
  "qkeyevent_attribute b name t = (if qkeyevent_has b name then Inr t else Inl Attribute_error)"

text \<open>
  \<open>send_key_event\<close>: the result is the exception raised, or the list of \<open>sendEvent\<close>
  calls made, each the receiving widget and the event; \<open>focus_widget\<close> is what
  \<open>mw.app.focusWidget()\<close> returns. Both events are built before the first is sent, so
  an exception leaves nothing sent.
\<close>

definition send_key_event :: "qt_binding \<Rightarrow> 'w option \<Rightarrow> string \<Rightarrow> exc + ('w \<times> key_event) list" where
  "send_key_event b focus_widget key_combo =
     (if key_combo = [] then Inr []
      else
        let parsed = parse_key_combination key_combo;
            modifiers = fst parsed;
            modifier_flags =
              (if ''ctrl'' \<in> set modifiers then {ControlModifier} else {}) \<union>
              (if ''shift'' \<in> set modifiers then {ShiftModifier} else {}) \<union>
              (if ''alt'' \<in> set modifiers then {AltModifier} else {})
        in case snd parsed of
             None \<Rightarrow> Inr []
           | Some key \<Rightarrow>
               if key = [] then Inr []
               else (case get_key_code b key of
                       Inl x \<Rightarrow> Inl x
                     | Inr None \<Rightarrow> Inr []
                     | Inr (Some kc) \<Rightarrow>
                         (case focus_widget of
                            None \<Rightarrow> Inr []
                          | Some w \<Rightarrow>
                              (case qkeyevent_attribute b ''KeyPress'' KeyPress of
                                 Inl x \<Rightarrow> Inl x
                               | Inr press \<Rightarrow>
                                   (case qkeyevent_attribute b ''KeyRelease'' KeyRelease of
                                      Inl x \<Rightarrow> Inl x
                                    | Inr release \<Rightarrow>
                                        Inr [(w, press, kc, modifier_flags),
                                             (w, release, kc, modifier_flags)])))))"

section \<open>Joystick events\<close>

definition JS_EVENT_BUTTON :: "8 word" where "JS_EVENT_BUTTON = 0x01"
definition JS_EVENT_AXIS :: "8 word" where "JS_EVENT_AXIS = 0x02"
definition JS_EVENT_INIT :: "8 word" where "JS_EVENT_INIT = 0x80"

definition CONTROLLER_BUTTONS :: "8 word \<Rightarrow> string option" where
  "CONTROLLER_BUTTONS =
     map_of [(0, ''A''), (1, ''B''), (2, ''X''), (3, ''Y''),
             (4, ''LEFT_SHOULDER''), (5, ''RIGHT_SHOULDER''), (6, ''SELECT''), (7, ''START''),
             (8, ''LEFT_STICK''), (9, ''RIGHT_STICK''),
             (10, ''LEFT_TRIGGER''), (11, ''RIGHT_TRIGGER'')]"

text \<open>\<open>EVENT_SIZE = struct.calcsize("@IhBB")\<close>: 4 + 2 + 1 + 1 bytes, no padding.\<close>

definition EVENT_SIZE :: nat where "EVENT_SIZE = 8"

record raw_event =
  ev_timestamp :: "32 word"
  ev_value :: "16 word"
  ev_type :: "8 word"
  ev_number :: "8 word"

text \<open>
  \<open>struct.unpack("@IhBB", data)\<close> in the byte order of the little-endian machines the
  joystick device exists on; \<open>None\<close> is \<open>struct.error\<close>, raised when the buffer
  is not of the record size. The value field is signed and read with \<^const>\<open>sint\<close>.
\<close>

fun unpack :: "8 word list \<Rightarrow> raw_event option" where
  "unpack [b0, b1, b2, b3, b4, b5, b6, b7] =
     Some \<lparr> ev_timestamp = ucast b0 OR push_bit 8 (ucast b1) OR push_bit 16 (ucast b2)
                              OR push_bit 24 (ucast b3),
            ev_value = ucast b4 OR push_bit 8 (ucast b5),
            ev_type = b6,
            ev_number = b7 \<rparr>"
| "unpack _ = None"

text \<open>Decimal digits of a number, as the f-string \<open>f"button_{button_num}"\<close> prints them.\<close>

fun str_nat :: "nat \<Rightarrow> string" where
  "str_nat n = (if n < 10 then [char_of (48 + n)] else str_nat (n div 10) @ [char_of (48 + n mod 10)])"

declare str_nat.simps [simp del]

definition button_key :: "8 word \<Rightarrow> string" where
  "button_key button_num = ''button_'' @ str_nat (unat button_num)"

section \<open>Decoding and edge detection\<close>

text \<open>
  \<open>self.last_state\<close> is a dictionary from state keys to flags;
  \<open>self.last_state.get(key, False)\<close> reads a missing key as inactive.
\<close>

type_synonym input_state = "string \<rightharpoonup> bool"

definition get_state :: "input_state \<Rightarrow> string \<Rightarrow> bool" where
  "get_state ls key = (case ls key of None \<Rightarrow> False | Some b \<Rightarrow> b)"

text \<open>
  The functions of this section return the new state, the list of key combos passed to
  \<open>send_key_event\<close>, in order, and the exception that ended them, if any.
  \<open>dispatch\<close> is \<open>key_combo = self.mappings.get(name)\<close> followed by
  \<open>if key_combo: self.send_key_event(key_combo)\<close>: the combos dispatched and the
  exception the call raised.
\<close>

definition dispatch :: "qt_binding \<Rightarrow> 'w option \<Rightarrow> (string \<rightharpoonup> string) \<Rightarrow> string
    \<Rightarrow> string list \<times> exc option" where
  "dispatch b focus mappings name =
     (case mappings name of
        None \<Rightarrow> ([], None)
      | Some key_combo \<Rightarrow>
          if key_combo = [] then ([], None)
          else ([key_combo],
                case send_key_event b focus key_combo of Inl x \<Rightarrow> Some x | Inr sent \<Rightarrow> None))"

text \<open>
  One direction of an axis past its threshold (the four branches that set a flag). The
  flag is written after the dispatch has returned, so not when it raises.
\<close>

definition axis_pressed :: "qt_binding \<Rightarrow> 'w option \<Rightarrow> (string \<rightharpoonup> string) \<Rightarrow> string \<Rightarrow> string
    \<Rightarrow> input_state \<Rightarrow> input_state \<times> string list \<times> exc option" where
  "axis_pressed b focus mappings key name ls =
     (let last = get_state ls key;
          d = (if \<not> last then dispatch b focus mappings name else ([], None))
      in case snd d of
           Some x \<Rightarrow> (ls, fst d, Some x)
         | None \<Rightarrow> (ls(key \<mapsto> True), fst d, None))"

definition normalized :: "16 word \<Rightarrow> real" where
  "normalized v = real_of_int (sint v) / 32767"

text \<open>
  The button branch (lines 264 to 279): the flag of the button is written last, after
  the dispatch has returned.
\<close>

definition button_branch :: "qt_binding \<Rightarrow> 'w option \<Rightarrow> (string \<rightharpoonup> string) \<Rightarrow> raw_event
    \<Rightarrow> input_state \<Rightarrow> input_state \<times> string list \<times> exc option" where
  "button_branch b focus mappings e ls =
     (let button_num = ev_number e;
          button_state = (ev_value e \<noteq> 0);
          button_name = CONTROLLER_BUTTONS button_num;
          d = (case button_name of
                 None \<Rightarrow> ([], None)
               | Some name \<Rightarrow>
                   if button_state then
                     (if \<not> get_state ls (button_key button_num)
                      then dispatch b focus mappings name
                      else ([], None))
                   else ([], None))
      in case snd d of
           Some x \<Rightarrow> (ls, fst d, Some x)
         | None \<Rightarrow> (ls(button_key button_num \<mapsto> button_state), fst d, None))"

text \<open>
  The axis branch (lines 282 to 329). The quotient \<open>value / 32767.0\<close> is taken in the
  reals: the two comparisons with \<open>-0.5\<close> and \<open>0.5\<close> give the same answers there as in
  double precision, no quotient of a 16-bit value by 32767 being within rounding distance
  of a threshold.
\<close>

definition axis_branch :: "qt_binding \<Rightarrow> 'w option \<Rightarrow> (string \<rightharpoonup> string) \<Rightarrow> raw_event
    \<Rightarrow> input_state \<Rightarrow> input_state \<times> string list \<times> exc option" where
  "axis_branch b focus mappings e ls =
     (let axis_num = ev_number e;
          axis_value = normalized (ev_value e)
      in
        if axis_num = 0 then
          (if axis_value < - 0.5 then axis_pressed b focus mappings ''axis_0_LEFT'' ''LEFT'' ls
           else if axis_value > 0.5 then axis_pressed b focus mappings ''axis_0_RIGHT'' ''RIGHT'' ls
           else (ls(''axis_0_LEFT'' := None, ''axis_0_RIGHT'' := None), [], None))
        else if axis_num = 1 then
          (if axis_value < - 0.5 then axis_pressed b focus mappings ''axis_1_UP'' ''UP'' ls
           else if axis_value > 0.5 then axis_pressed b focus mappings ''axis_1_DOWN'' ''DOWN'' ls
           else (ls(''axis_1_UP'' := None, ''axis_1_DOWN'' := None), [], None))
        else (ls, [], None))"

text \<open>The body of the read loop after \<open>struct.unpack\<close>: \<open>if\<close> on the button bit, \<open>elif\<close> on the axis bit.\<close>

definition handle_event :: "qt_binding \<Rightarrow> 'w option \<Rightarrow> (string \<rightharpoonup> string) \<Rightarrow> raw_event
    \<Rightarrow> input_state \<Rightarrow> input_state \<times> string list \<times> exc option" where
  "handle_event b focus mappings e ls =
     (if ev_type e AND JS_EVENT_BUTTON \<noteq> 0 then button_branch b focus mappings e ls
      else if ev_type e AND JS_EVENT_AXIS \<noteq> 0 then axis_branch b focus mappings e ls
      else (ls, [], None))"

text \<open>
  Handling decoded records one after the other, collecting the dispatches; an exception
  ends the run.
\<close>

fun handle_events :: "qt_binding \<Rightarrow> 'w option \<Rightarrow> (string \<rightharpoonup> string) \<Rightarrow> raw_event list
    \<Rightarrow> input_state \<Rightarrow> input_state \<times> string list \<times> exc option" where
  "handle_events b focus mappings [] ls = (ls, [], None)"
| "handle_events b focus mappings (e # es) ls =
     (let r1 = handle_event b focus mappings e ls in
      case snd (snd r1) of
        Some x \<Rightarrow> r1
      | None \<Rightarrow>
          let r2 = handle_events b focus mappings es (fst r1)
          in (fst r2, fst (snd r1) @ fst (snd r2), snd (snd r2)))"

section \<open>The read loop of one poll tick\<close>

text \<open>
  What \<open>self.js_device.read(EVENT_SIZE)\<close> can give on the non-blocking device: nothing
  (\<open>None\<close>), some bytes (possibly none or fewer than asked for), or an \<open>OSError\<close>.
  A tick is given the results of its successive reads; when the list is used up the
  device has nothing more to offer.
\<close>

datatype read_result = Read_none | Read_bytes "8 word list" | Read_oserror

text \<open>
  The \<open>while True\<close> loop inside \<open>try ... except (OSError, IOError): pass\<close>. The
  result is the state, the dispatches made, and the exception that left the loop
  uncaught, if any: an \<open>OSError\<close> is swallowed, any other exception, such as the
  \<open>AttributeError\<close> of a dispatch, ends the tick and goes on to the caller. The state
  written and the dispatches made before it stay made.
\<close>

fun read_loop :: "qt_binding \<Rightarrow> 'w option \<Rightarrow> (string \<rightharpoonup> string) \<Rightarrow> read_result list
    \<Rightarrow> input_state \<Rightarrow> input_state \<times> string list \<times> exc option" where
  "read_loop b focus mp [] ls = (ls, [], None)"
| "read_loop b focus mp (Read_none # rs) ls = (ls, [], None)"
| "read_loop b focus mp (Read_oserror # rs) ls = (ls, [], None)"
| "read_loop b focus mp (Read_bytes data # rs) ls =
     (if data = [] then (ls, [], None)
      else if length data < EVENT_SIZE then (ls, [], None)
      else (case unpack data of
              None \<Rightarrow> (ls, [], Some Struct_error)
            | Some e \<Rightarrow>
                let r1 = handle_event b focus mp e ls in
                case snd (snd r1) of
                  Some x \<Rightarrow> (fst r1, fst (snd r1), if x = OS_error then None else Some x)
                | None \<Rightarrow>
                    let r2 = read_loop b focus mp rs (fst r1)
                    in (fst r2, fst (snd r1) @ fst (snd r2), snd (snd r2))))"

section \<open>The remapper object\<close>

record remapper =
  mappings :: "(string \<times> string) list"
  running :: bool
  js_device :: "string option"
  last_state :: input_state

text \<open>\<open>__init__\<close>, given the mapping that \<open>load_config\<close> returned.\<close>

definition remapper_init :: "(string \<times> string) list \<Rightarrow> remapper" where
  "remapper_init loaded =
     \<lparr> mappings = loaded, running = False, js_device = None, last_state = Map.empty \<rparr>"

definition process_controller_input :: "qt_binding \<Rightarrow> 'w option \<Rightarrow> remapper \<Rightarrow> read_result list
    \<Rightarrow> remapper \<times> string list \<times> exc option" where
  "process_controller_input b focus s reads =
     (if js_device s = None then (s, [], None)
      else
        let r = read_loop b focus (map_of (mappings s)) reads (last_state s)
        in (s\<lparr>last_state := fst r\<rparr>, fst (snd r), snd (snd r)))"

text \<open>The device nodes: which paths exist and which can be opened for reading.\<close>

record js_env =
  js_exists :: "string \<Rightarrow> bool"
  js_openable :: "string \<Rightarrow> bool"

definition js_path :: "nat \<Rightarrow> string" where
  "js_path i = ''/dev/input/js'' @ str_nat i"

definition find_joystick_device :: "js_env \<Rightarrow> string option" where
  "find_joystick_device env =
     map_option js_path (find (\<lambda>i. js_exists env (js_path i)) [0..<16])"

definition is_8bitdo_controller :: "js_env \<Rightarrow> string \<Rightarrow> bool" where
  "is_8bitdo_controller env p = js_openable env p"

text \<open>
  \<open>detect_controller\<close>: the state and the returned flag. The device is opened once by
  the controller check and once more to keep; switching the kept descriptor to
  non-blocking mode is taken to succeed.
\<close>

definition detect_controller :: "js_env \<Rightarrow> remapper \<Rightarrow> remapper \<times> bool" where
  "detect_controller env s =
     (case find_joystick_device env of
        None \<Rightarrow> (s, False)
      | Some p \<Rightarrow>
          if \<not> is_8bitdo_controller env p then (s, False)
          else if js_openable env p then (s\<lparr>js_device := Some p\<rparr>, True)
          else (s, False))"

text \<open>
  \<open>while self.running: self.process_controller_input()\<close>. The flag is cleared by
  \<open>stop\<close> on another thread; the list holds the ticks that run before that, one list
  of read results for each. An exception out of a tick ends the loop.
\<close>

fun poll_loop :: "qt_binding \<Rightarrow> 'w option \<Rightarrow> read_result list list \<Rightarrow> remapper
    \<Rightarrow> remapper \<times> string list \<times> exc option" where
  "poll_loop b focus [] s = (s, [], None)"
| "poll_loop b focus (t # ts) s =
     (if \<not> running s then (s, [], None)
      else
        let r1 = process_controller_input b focus s t in
        case snd (snd r1) of
          Some x \<Rightarrow> r1
        | None \<Rightarrow>
            let r2 = poll_loop b focus ts (fst r1)
            in (fst r2, fst (snd r1) @ fst (snd r2), snd (snd r2)))"

text \<open>
  \<open>run_loop\<close>: the state on entry to the polling loop is the one \<open>detect_controller\<close>
  leaves; afterwards the device is closed. An exception ends the thread before that.
\<close>

definition polling_entry :: "js_env \<Rightarrow> remapper \<Rightarrow> remapper option" where
  "polling_entry env s =
     (let d = detect_controller env s in if snd d then Some (fst d) else None)"

definition run_loop :: "qt_binding \<Rightarrow> 'w option \<Rightarrow> js_env \<Rightarrow> read_result list list \<Rightarrow> remapper
    \<Rightarrow> remapper \<times> string list \<times> exc option" where
  "run_loop b focus env ticks s =
     (let r = (case polling_entry env s of
                 Some s1 \<Rightarrow> poll_loop b focus ticks s1
               | None \<Rightarrow> (fst (detect_controller env s), [], None))
      in case snd (snd r) of
           Some x \<Rightarrow> r
         | None \<Rightarrow> ((fst r)\<lparr>js_device := None\<rparr>, fst (snd r), None))"

definition start :: "remapper \<Rightarrow> remapper" where
  "start s = (if running s then s else s\<lparr>running := True\<rparr>)"

definition stop :: "remapper \<Rightarrow> remapper" where
  "stop s = s\<lparr>running := False\<rparr>"

text \<open>
  One use of the menu: \<open>start\<close>, the worker thread's \<open>run_loop\<close> for the given ticks,
  then \<open>stop\<close>. The same remapper object serves every such session.
\<close>

definition session :: "qt_binding \<Rightarrow> 'w option \<Rightarrow> js_env \<Rightarrow> read_result list list \<Rightarrow> remapper
    \<Rightarrow> remapper \<times> string list" where
  "session b focus env ticks s =
     (if running s then (s, [])
      else let r = run_loop b focus env ticks (start s) in (stop (fst r), fst (snd r)))"

section \<open>Configuration\<close>

definition DEFAULT_MAPPINGS :: "(string \<times> string) list" where
  "DEFAULT_MAPPINGS =
     [(''A'', '' ''), (''B'', ''Return''), (''X'', ''z''), (''Y'', ''x''),
      (''LEFT'', ''Left''), (''RIGHT'', ''Right''), (''UP'', ''Up''), (''DOWN'', ''Down''),
      (''LEFT_SHOULDER'', ''Ctrl+Shift+z''), (''RIGHT_SHOULDER'', ''Ctrl+z''),
      (''START'', ''Return''), (''SELECT'', ''Backspace''),
      (''LEFT_TRIGGER'', ''Ctrl+Shift+z''), (''RIGHT_TRIGGER'', ''Ctrl+y'')]"

text \<open>
  What \<open>json.load\<close> returns: a flat object of strings, in the order of the file, or some
  other JSON value. \<open>load_config\<close> and \<open>save_config\<close> take the reader and the writer as
  parameters: \<open>json_load\<close> gives the document or the exception raised, \<open>json_dump\<close> the
  text written.
\<close>

datatype document = Mapping_doc "(string \<times> string) list" | Other_doc

text \<open>The configuration file: whether it exists, the access it allows, its text.\<close>

record config_fs =
  cfg_exists :: bool
  cfg_readable :: bool
  cfg_writable :: bool
  cfg_content :: string

definition open_read :: "config_fs \<Rightarrow> exc + string" where
  "open_read fs = (if cfg_readable fs then Inr (cfg_content fs) else Inl OS_error)"

text \<open>\<open>load_config\<close>; the bare \<open>except\<close> turns every exception into the fall-through.\<close>

definition load_config :: "(string \<Rightarrow> exc + document) \<Rightarrow> config_fs \<Rightarrow> exc + document" where
  "load_config json_load fs =
     (if cfg_exists fs then
        (case (case open_read fs of Inl x \<Rightarrow> Inl x | Inr txt \<Rightarrow> json_load txt) of
           Inr d \<Rightarrow> Inr d
         | Inl x \<Rightarrow> Inr (Mapping_doc DEFAULT_MAPPINGS))
      else Inr (Mapping_doc DEFAULT_MAPPINGS))"

text \<open>\<open>save_config\<close>: opening for writing creates or truncates the file, or raises.\<close>

definition save_config :: "((string \<times> string) list \<Rightarrow> string) \<Rightarrow> (string \<times> string) list
    \<Rightarrow> config_fs \<Rightarrow> exc + config_fs" where
  "save_config json_dump m fs =
     (if cfg_writable fs then Inr (fs\<lparr>cfg_exists := True, cfg_content := json_dump m\<rparr>)
      else Inl OS_error)"

section \<open>The JSON codec\<close>

text \<open>
  \<open>json.dump(mapping, f, indent=2)\<close> for a dictionary of strings, after the
  documentation of the \<open>json\<close> module: an empty dictionary is written \<open>{}\<close>; otherwise
  each member stands on a line of its own, indented by two blanks, with \<open>": "\<close> after the
  key and a comma after every member but the last. With \<open>ensure_ascii\<close>, the default, a
  string is written between double quotes with the quote and the backslash escaped by a
  backslash, backspace, form feed, newline, carriage return and tab as \<open>\b \f \n \r \t\<close>,
  and every other character outside the blank to the tilde as \<open>\u\<close> and four lowercase
  hexadecimal digits. Characters are told apart by their code.
\<close>

definition hex_digit :: "nat \<Rightarrow> char" where
  "hex_digit d = (if d < 10 then char_of (48 + d) else char_of (87 + d))"

definition escape_char :: "char \<Rightarrow> string" where
  "escape_char c =
     (let n = (of_char c :: nat) in
      if n = 34 then [char_of (92::nat), char_of (34::nat)]
      else if n = 92 then [char_of (92::nat), char_of (92::nat)]
      else if n = 8 then [char_of (92::nat), char_of (98::nat)]
      else if n = 12 then [char_of (92::nat), char_of (102::nat)]
      else if n = 10 then [char_of (92::nat), char_of (110::nat)]
      else if n = 13 then [char_of (92::nat), char_of (114::nat)]
      else if n = 9 then [char_of (92::nat), char_of (116::nat)]
      else if 32 \<le> n \<and> n \<le> 126 then [c]
      else [char_of (92::nat), char_of (117::nat), char_of (48::nat), char_of (48::nat),
            hex_digit (n div 16), hex_digit (n mod 16)])"

definition json_string :: "string \<Rightarrow> string" where
  "json_string s = char_of (34::nat) # concat (map escape_char s) @ [char_of (34::nat)]"

definition dump_member :: "string \<times> string \<Rightarrow> string" where
  "dump_member kv = ''  '' @ json_string (fst kv) @ '': '' @ json_string (snd kv)"

fun dump_members :: "(string \<times> string) list \<Rightarrow> string" where
  "dump_members [] = []"
| "dump_members [kv] = dump_member kv"
| "dump_members (kv # kv' # kvs) =
     dump_member kv @ '','' @ [char_of (10::nat)] @ dump_members (kv' # kvs)"

definition json_dumps :: "(string \<times> string) list \<Rightarrow> string" where
  "json_dumps m =
     (if m = [] then ''{}''
      else ''{'' @ [char_of (10::nat)] @ dump_members m @ [char_of (10::nat)] @ ''}'')"

text \<open>
  \<open>json.load\<close> on the texts that are one object whose values are strings, read by an
  automaton over the characters. Whitespace is the blank, tab, newline and carriage
  return. Inside a string a control character is an error, a backslash starts one of the
  escapes \<open>\" \\ \/ \b \f \n \r \t\<close> or \<open>\u\<close> with four hexadecimal digits of either
  case; a key met again replaces the earlier value in place. A text that begins with
  another kind of value, has another kind of value for a member, or escapes a character
  beyond Latin-1 is outside these texts: what \<open>json.load\<close> does with it is left to the
  parameter \<open>other\<close>. Every other text is one \<open>json.load\<close> rejects.
\<close>

definition hex_value :: "char \<Rightarrow> nat option" where
  "hex_value c =
     (let n = (of_char c :: nat) in
      if 48 \<le> n \<and> n \<le> 57 then Some (n - 48)
      else if 65 \<le> n \<and> n \<le> 70 then Some (n - 55)
      else if 97 \<le> n \<and> n \<le> 102 then Some (n - 87)
      else None)"

definition is_json_space :: "char \<Rightarrow> bool" where
  "is_json_space c = (let n = (of_char c :: nat) in n = 32 \<or> n = 9 \<or> n = 10 \<or> n = 13)"

datatype str_state = Plain | Escaped | Hex nat nat

datatype str_result = Go string str_state | Closed string | Str_malformed | Str_wide

definition str_step :: "string \<Rightarrow> str_state \<Rightarrow> char \<Rightarrow> str_result" where
  "str_step buf st c =
     (let n = (of_char c :: nat) in
      case st of
        Plain \<Rightarrow>
          if n = 34 then Closed buf
          else if n = 92 then Go buf Escaped
          else if n < 32 then Str_malformed
          else Go (buf @ [c]) Plain
      | Escaped \<Rightarrow>
          if n = 34 \<or> n = 92 \<or> n = 47 then Go (buf @ [c]) Plain
          else if n = 98 then Go (buf @ [char_of (8::nat)]) Plain
          else if n = 102 then Go (buf @ [char_of (12::nat)]) Plain
          else if n = 110 then Go (buf @ [char_of (10::nat)]) Plain
          else if n = 114 then Go (buf @ [char_of (13::nat)]) Plain
          else if n = 116 then Go (buf @ [char_of (9::nat)]) Plain
          else if n = 117 then Go buf (Hex 0 0)
          else Str_malformed
      | Hex k v \<Rightarrow>
          (case hex_value c of
             None \<Rightarrow> Str_malformed
           | Some d \<Rightarrow>
               if k < 3 then Go buf (Hex (Suc k) (16 * v + d))
               else if 16 * v + d < 256 then Go (buf @ [char_of (16 * v + d)]) Plain
               else Str_wide))"

text \<open>Storing a member as a Python dictionary does: in place when the key is there already.\<close>

fun dict_set :: "(string \<times> string) list \<Rightarrow> string \<Rightarrow> string \<Rightarrow> (string \<times> string) list" where
  "dict_set [] k v = [(k, v)]"
| "dict_set ((k', v') # kvs) k v =
     (if k' = k then (k, v) # kvs else (k', v') # dict_set kvs k v)"

datatype scan =
    Before | Opened | In_key string str_state | Want_colon string | Want_value string
  | In_value string string str_state | Want_comma | Want_next | After | Malformed | Outside

fun scan_step :: "scan \<times> (string \<times> string) list \<Rightarrow> char \<Rightarrow> scan \<times> (string \<times> string) list" where
  "scan_step (Before, acc) c =
     (if is_json_space c then (Before, acc)
      else if (of_char c :: nat) = 123 then (Opened, acc)
      else (Outside, acc))"
| "scan_step (Opened, acc) c =
     (if is_json_space c then (Opened, acc)
      else if (of_char c :: nat) = 34 then (In_key [] Plain, acc)
      else if (of_char c :: nat) = 125 then (After, acc)
      else (Malformed, acc))"
| "scan_step (In_key buf st, acc) c =
     (case str_step buf st c of
        Go buf' st' \<Rightarrow> (In_key buf' st', acc)
      | Closed k \<Rightarrow> (Want_colon k, acc)
      | Str_malformed \<Rightarrow> (Malformed, acc)
      | Str_wide \<Rightarrow> (Outside, acc))"
| "scan_step (Want_colon k, acc) c =
     (if is_json_space c then (Want_colon k, acc)
      else if (of_char c :: nat) = 58 then (Want_value k, acc)
      else (Malformed, acc))"
| "scan_step (Want_value k, acc) c =
     (if is_json_space c then (Want_value k, acc)
      else if (of_char c :: nat) = 34 then (In_value k [] Plain, acc)
      else (Outside, acc))"
| "scan_step (In_value k buf st, acc) c =
     (case str_step buf st c of
        Go buf' st' \<Rightarrow> (In_value k buf' st', acc)
      | Closed v \<Rightarrow> (Want_comma, dict_set acc k v)
      | Str_malformed \<Rightarrow> (Malformed, acc)
      | Str_wide \<Rightarrow> (Outside, acc))"
| "scan_step (Want_comma, acc) c =
     (if is_json_space c then (Want_comma, acc)
      else if (of_char c :: nat) = 44 then (Want_next, acc)
      else if (of_char c :: nat) = 125 then (After, acc)
      else (Malformed, acc))"
| "scan_step (Want_next, acc) c =
     (if is_json_space c then (Want_next, acc)
      else if (of_char c :: nat) = 34 then (In_key [] Plain, acc)
      else (Malformed, acc))"
| "scan_step (After, acc) c = (if is_json_space c then (After, acc) else (Malformed, acc))"
| "scan_step (Malformed, acc) c = (Malformed, acc)"
| "scan_step (Outside, acc) c = (Outside, acc)"

definition json_loads :: "(string \<Rightarrow> exc + document) \<Rightarrow> string \<Rightarrow> exc + document" where
  "json_loads other txt =
     (case foldl scan_step (Before, []) txt of
        (After, acc) \<Rightarrow> Inr (Mapping_doc acc)
      | (Outside, acc) \<Rightarrow> other txt
      | (st, acc) \<Rightarrow> Inl Decode_error)"

section \<open>Notions used to state the properties\<close>

text \<open>A record that reports button \<open>n\<close> as pressed: button bit set, value non-zero.\<close>

definition is_press :: "8 word \<Rightarrow> raw_event \<Rightarrow> bool" where
  "is_press n e \<longleftrightarrow> ev_type e AND JS_EVENT_BUTTON \<noteq> 0 \<and> ev_value e \<noteq> 0 \<and> ev_number e = n"

text \<open>A record that reaches the axis branch, for axis \<open>a\<close>.\<close>

definition is_axis :: "8 word \<Rightarrow> raw_event \<Rightarrow> bool" where
  "is_axis a e \<longleftrightarrow> ev_type e AND JS_EVENT_BUTTON = 0 \<and> ev_type e AND JS_EVENT_AXIS \<noteq> 0 \<and> ev_number e = a"

definition inactive :: "input_state \<Rightarrow> string \<Rightarrow> bool" where
  "inactive ls key \<longleftrightarrow> ls key = None \<or> ls key = Some False"

text \<open>The pieces of a split, put together again with the separator.\<close>

fun join_plus :: "string list \<Rightarrow> string" where
  "join_plus [] = []"
| "join_plus [t] = t"
| "join_plus (t # ts) = t @ CHR ''+'' # join_plus ts"

text \<open>
  Combo parsing as the specification words it: the tokens are the trimmed, lowercased
  pieces; the modifiers are a set; the primary key is the last token that is no
  modifier word.
\<close>

definition tokens :: "string \<Rightarrow> string list" where
  "tokens combo = map (\<lambda>p. lower (strip p)) (split_plus combo)"

definition modifier_words :: "string list" where
  "modifier_words = [''ctrl'', ''control'', ''shift'', ''alt'']"

text \<open>The name a modifier word is recorded under.\<close>

definition modifier_name :: "string \<Rightarrow> string" where
  "modifier_name t = (if t = ''control'' then ''ctrl'' else t)"

definition spec_modifiers :: "string \<Rightarrow> string set" where
  "spec_modifiers combo =
     (if ''ctrl'' \<in> set (tokens combo) \<or> ''control'' \<in> set (tokens combo) then {''ctrl''} else {}) \<union>
     (if ''shift'' \<in> set (tokens combo) then {''shift''} else {}) \<union>
     (if ''alt'' \<in> set (tokens combo) then {''alt''} else {})"

definition spec_key :: "string \<Rightarrow> string option" where
  "spec_key combo =
     (case filter (\<lambda>t. t \<notin> set modifier_words) (tokens combo) of
        [] \<Rightarrow> None
      | t # ts \<Rightarrow> Some (last (t # ts)))"

text \<open>The members of a list stored one after the other into a dictionary.\<close>

definition store_all :: "(string \<times> string) list \<Rightarrow> (string \<times> string) list \<Rightarrow> (string \<times> string) list" where
  "store_all acc m = foldl (\<lambda>a kv. dict_set a (fst kv) (snd kv)) acc m"

text \<open>Several steps of the string automaton, as long as the string stays open.\<close>

fun str_steps :: "string \<Rightarrow> str_state \<Rightarrow> string \<Rightarrow> str_result" where
  "str_steps buf st [] = Go buf st"
| "str_steps buf st (c # cs) =
     (case str_step buf st c of
        Go buf' st' \<Rightarrow> str_steps buf' st' cs
      | Closed k \<Rightarrow> Closed k
      | Str_malformed \<Rightarrow> Str_malformed
      | Str_wide \<Rightarrow> Str_wide)"

section \<open>Sample environments\<close>

text \<open>
  PyQt6 as the module imports it: its enumerations are scoped, so \<open>Qt\<close> has none of the
  \<open>Key_\<close> names and \<open>QKeyEvent\<close> has neither \<open>KeyPress\<close> nor \<open>KeyRelease\<close>.
\<close>

definition pyqt6 :: qt_binding where
  "pyqt6 = \<lparr> qt_has = (\<lambda>name. False), qkeyevent_has = (\<lambda>name. False) \<rparr>"

text \<open>A binding with the old names of the keys on \<open>Qt\<close>, and none on \<open>QKeyEvent\<close>.\<close>

definition qt_keys_only :: qt_binding where
  "qt_keys_only = \<lparr> qt_has = (\<lambda>name. True), qkeyevent_has = (\<lambda>name. False) \<rparr>"

text \<open>A binding in which every name asked for is there.\<close>

definition qt_all_names :: qt_binding where
  "qt_all_names = \<lparr> qt_has = (\<lambda>name. True), qkeyevent_has = (\<lambda>name. True) \<rparr>"

text \<open>One joystick at \<open>/dev/input/js0\<close> that can be opened.\<close>

definition env_js0 :: js_env where
  "env_js0 = \<lparr> js_exists = (\<lambda>p. p = ''/dev/input/js0''), js_openable = (\<lambda>p. True) \<rparr>"

text \<open>
  The eight bytes of a button record as the driver replays it when the device is opened
  with the button down: value 1, type button with the init bit, button 0 (A).
\<close>

definition press_A :: read_result where
  "press_A = Read_bytes [0, 0, 0, 0, 1, 0, 0x81, 0]"

text \<open>The eight bytes of a button record: value 1, type button, button 2 (X).\<close>

definition press_X :: read_result where
  "press_X = Read_bytes [0, 0, 0, 0, 1, 0, 1, 2]"

text \<open>The remapper after a first session in which A was down and was not seen released.\<close>

definition after_first_session :: remapper where
  "after_first_session =
     fst (session pyqt6 (Some (0::nat)) env_js0 [[press_A]] (remapper_init DEFAULT_MAPPINGS))"

text \<open>A remapper with the default mappings whose device is open.\<close>

definition opened :: remapper where
  "opened = (remapper_init DEFAULT_MAPPINGS)\<lparr>js_device := Some ''/dev/input/js0''\<rparr>"

text \<open>A button record for button \<open>n\<close> with a given raw value.\<close>

definition button_record :: "8 word \<Rightarrow> 16 word \<Rightarrow> raw_event" where
  "button_record n v = \<lparr> ev_timestamp = 0, ev_value = v, ev_type = JS_EVENT_BUTTON, ev_number = n \<rparr>"

text \<open>Axis records on axis 0 with a given raw value.\<close>

definition axis0 :: "16 word \<Rightarrow> raw_event" where
  "axis0 v = \<lparr> ev_timestamp = 0, ev_value = v, ev_type = JS_EVENT_AXIS, ev_number = 0 \<rparr>"

text \<open>A record on number 0 at full deflection with a given type.\<close>

definition full_deflection :: "8 word \<Rightarrow> raw_event" where
  "full_deflection t = \<lparr> ev_timestamp = 0, ev_value = 32767, ev_type = t, ev_number = 0 \<rparr>"

section \<open>The JSON round trip\<close>

lemma hex_value_digit: "d < 16 \<Longrightarrow> hex_value (hex_digit d) = Some d"
  by (auto simp: hex_value_def hex_digit_def Let_def)

lemma escape_steps: "str_steps buf Plain (escape_char c) = Go (buf @ [c]) Plain"
proof -
  define n where "n = (of_char c :: nat)"
  have nc: "of_char c = n" by (simp add: n_def)
  have c: "char_of n = c" by (simp add: n_def)
  have lt: "n < 256" by (simp add: n_def)
  consider "n = 34" | "n = 92" | "n = 8" | "n = 12" | "n = 10" | "n = 13" | "n = 9"
    | "32 \<le> n" "n \<le> 126" "n \<noteq> 34" "n \<noteq> 92"
    | "n < 32" "n \<noteq> 8" "n \<noteq> 12" "n \<noteq> 10" "n \<noteq> 13" "n \<noteq> 9"
    | "126 < n"
    by linarith
  then show ?thesis
  proof cases
    case 1
    have "escape_char c = [char_of (92::nat), char_of (34::nat)]"
      by (simp add: escape_char_def nc 1)
    then show ?thesis using c by (simp add: str_step_def nc 1 Let_def)
  next
    case 2
    have "escape_char c = [char_of (92::nat), char_of (92::nat)]"
      by (simp add: escape_char_def nc 2)
    then show ?thesis using c by (simp add: str_step_def nc 2 Let_def)
  next
    case 3
    have "escape_char c = [char_of (92::nat), char_of (98::nat)]"
      by (simp add: escape_char_def nc 3)
    then show ?thesis using c by (simp add: str_step_def nc 3 Let_def)
  next
    case 4
    have "escape_char c = [char_of (92::nat), char_of (102::nat)]"
      by (simp add: escape_char_def nc 4)
    then show ?thesis using c by (simp add: str_step_def nc 4 Let_def)
  next
    case 5
    have "escape_char c = [char_of (92::nat), char_of (110::nat)]"
      by (simp add: escape_char_def nc 5)
    then show ?thesis using c by (simp add: str_step_def nc 5 Let_def)
  next
    case 6
    have "escape_char c = [char_of (92::nat), char_of (114::nat)]"
      by (simp add: escape_char_def nc 6)
    then show ?thesis using c by (simp add: str_step_def nc 6 Let_def)
  next
    case 7
    have "escape_char c = [char_of (92::nat), char_of (116::nat)]"
      by (simp add: escape_char_def nc 7)
    then show ?thesis using c by (simp add: str_step_def nc 7 Let_def)
  next
    case 8
    have "escape_char c = [c]"
      using 8 by (simp add: escape_char_def nc)
    then show ?thesis using 8 by (simp add: str_step_def nc Let_def)
  next
    case 9
    have e: "escape_char c = [char_of (92::nat), char_of (117::nat), char_of (48::nat),
        char_of (48::nat), hex_digit (n div 16), hex_digit (n mod 16)]"
      using 9 by (simp add: escape_char_def nc)
    have h0: "hex_value (char_of (48::nat)) = Some 0" by (simp add: hex_value_def)
    have h1: "hex_value (hex_digit (n div 16)) = Some (n div 16)"
      using lt by (intro hex_value_digit) simp
    have h2: "hex_value (hex_digit (n mod 16)) = Some (n mod 16)"
      by (intro hex_value_digit) simp
    show ?thesis using lt c by (simp add: e str_step_def h0 h1 h2 Let_def)
  next
    case 10
    have e: "escape_char c = [char_of (92::nat), char_of (117::nat), char_of (48::nat),
        char_of (48::nat), hex_digit (n div 16), hex_digit (n mod 16)]"
      using 10 by (simp add: escape_char_def nc)
    have h0: "hex_value (char_of (48::nat)) = Some 0" by (simp add: hex_value_def)
    have h1: "hex_value (hex_digit (n div 16)) = Some (n div 16)"
      using lt by (intro hex_value_digit) simp
    have h2: "hex_value (hex_digit (n mod 16)) = Some (n mod 16)"
      by (intro hex_value_digit) simp
    show ?thesis using lt c by (simp add: e str_step_def h0 h1 h2 Let_def)
  qed
qed

lemma str_steps_append:
  "str_steps buf st cs = Go buf' st' \<Longrightarrow> str_steps buf st (cs @ ds) = str_steps buf' st' ds"
  by (induction cs arbitrary: buf st) (auto split: str_result.splits)

lemma escaped_steps: "str_steps buf Plain (concat (map escape_char s)) = Go (buf @ s) Plain"
proof (induction s arbitrary: buf)
  case Nil
  then show ?case by simp
next
  case (Cons c s)
  show ?case using str_steps_append [OF escape_steps [of buf c]] Cons.IH [of "buf @ [c]"] by simp
qed

lemma key_steps:
  "str_steps buf st cs = Go buf' st' \<Longrightarrow>
     foldl scan_step (In_key buf st, acc) cs = (In_key buf' st', acc)"
  by (induction cs arbitrary: buf st) (auto split: str_result.splits)

lemma value_steps:
  "str_steps buf st cs = Go buf' st' \<Longrightarrow>
     foldl scan_step (In_value k buf st, acc) cs = (In_value k buf' st', acc)"
  by (induction cs arbitrary: buf st) (auto split: str_result.splits)

lemma key_scanned:
  "foldl scan_step (In_key [] Plain, acc) (concat (map escape_char s)) = (In_key s Plain, acc)"
  using key_steps [OF escaped_steps [of "[]" s]] by simp

lemma value_scanned:
  "foldl scan_step (In_value k [] Plain, acc) (concat (map escape_char s)) =
     (In_value k s Plain, acc)"
  using value_steps [OF escaped_steps [of "[]" s]] by simp

lemma string_in_key:
  "foldl scan_step (In_key [] Plain, acc) (concat (map escape_char s) @ [char_of (34::nat)]) =
     (Want_colon s, acc)"
  by (simp add: key_scanned str_step_def)

lemma string_in_value:
  "foldl scan_step (In_value k [] Plain, acc) (concat (map escape_char s) @ [char_of (34::nat)]) =
     (Want_comma, dict_set acc k s)"
  by (simp add: value_scanned str_step_def)

lemma member_scanned:
  assumes "st = Opened \<or> st = Want_next"
  shows "foldl scan_step (st, acc) (dump_member (k, v)) = (Want_comma, dict_set acc k v)"
proof -
  define p1 where "p1 = ''  '' @ [char_of (34::nat)]"
  define p2 where "p2 = concat (map escape_char k) @ [char_of (34::nat)]"
  define p3 where "p3 = '': '' @ [char_of (34::nat)]"
  define p4 where "p4 = concat (map escape_char v) @ [char_of (34::nat)]"
  have a: "foldl scan_step (st, acc) p1 = (In_key [] Plain, acc)"
    using assms by (auto simp: p1_def is_json_space_def)
  have b: "foldl scan_step (In_key [] Plain, acc) p2 = (Want_colon k, acc)"
    unfolding p2_def by (rule string_in_key)
  have c: "foldl scan_step (Want_colon k, acc) p3 = (In_value k [] Plain, acc)"
    by (simp add: p3_def is_json_space_def)
  have d: "foldl scan_step (In_value k [] Plain, acc) p4 = (Want_comma, dict_set acc k v)"
    unfolding p4_def by (rule string_in_value)
  have "dump_member (k, v) = p1 @ p2 @ p3 @ p4"
    by (simp add: dump_member_def json_string_def p1_def p2_def p3_def p4_def)
  then show ?thesis by (simp add: a b c d)
qed

lemma members_scanned:
  assumes "m \<noteq> []" "st = Opened \<or> st = Want_next"
  shows "foldl scan_step (st, acc) (dump_members m) = (Want_comma, store_all acc m)"
  using assms
proof (induction m arbitrary: st acc rule: dump_members.induct)
  case 1
  then show ?case by simp
next
  case (2 kv)
  then show ?case using member_scanned [of st acc "fst kv" "snd kv"] by (simp add: store_all_def)
next
  case (3 kv kv' kvs)
  have a: "foldl scan_step (st, acc) (dump_member kv) = (Want_comma, dict_set acc (fst kv) (snd kv))"
    using member_scanned [of st acc "fst kv" "snd kv"] "3.prems" by simp
  have b: "foldl scan_step (Want_next, dict_set acc (fst kv) (snd kv)) (dump_members (kv' # kvs)) =
      (Want_comma, store_all (dict_set acc (fst kv) (snd kv)) (kv' # kvs))"
    by (rule "3.IH") simp_all
  show ?case
    using b by (simp add: a is_json_space_def store_all_def)
qed

lemma dump_scanned: "foldl scan_step (Before, []) (json_dumps m) = (After, store_all [] m)"
proof (cases "m = []")
  case True
  then show ?thesis by (simp add: json_dumps_def store_all_def is_json_space_def)
next
  case False
  then show ?thesis
    by (simp add: json_dumps_def members_scanned [of m Opened] is_json_space_def)
qed

lemma dict_set_fresh: "k \<notin> fst ` set acc \<Longrightarrow> dict_set acc k v = acc @ [(k, v)]"
  by (induction acc) auto

lemma store_all_distinct:
  assumes "distinct (map fst m)" "fst ` set m \<inter> fst ` set acc = {}"
  shows "store_all acc m = acc @ m"
  using assms
proof (induction m arbitrary: acc)
  case Nil
  then show ?case by (simp add: store_all_def)
next
  case (Cons kv m)
  have f: "fst kv \<notin> fst ` set acc" using Cons.prems(2) by auto
  have "store_all (acc @ [kv]) m = (acc @ [kv]) @ m"
    using Cons.prems by (intro Cons.IH) auto
  then show ?case using dict_set_fresh [OF f, of "snd kv"] by (simp add: store_all_def)
qed

lemma json_round_trip:
  assumes "distinct (map fst m)"
  shows "json_loads other (json_dumps m) = Inr (Mapping_doc m)"
  using store_all_distinct [OF assms, of "[]"] by (simp add: json_loads_def dump_scanned)

section \<open>Parsing key combinations\<close>

lemma split_plus_nonempty: "split_plus s \<noteq> []"
  by (induction s) (auto split: list.splits)

lemma join_plus_Cons: "ts \<noteq> [] \<Longrightarrow> join_plus (t # ts) = t @ CHR ''+'' # join_plus ts"
  by (cases ts) simp_all

lemma join_split: "join_plus (split_plus s) = s"
proof (induction s)
  case Nil
  then show ?case by simp
next
  case (Cons c cs)
  obtain t ts where sp: "split_plus cs = t # ts"
    using split_plus_nonempty [of cs] by (cases "split_plus cs") auto
  show ?case
  proof (cases "c = CHR ''+''")
    case True
    then show ?thesis using Cons.IH by (simp add: join_plus_Cons split_plus_nonempty)
  next
    case False
    then show ?thesis using Cons.IH sp by (cases ts) simp_all
  qed
qed

lemma split_pieces_free: "CHR ''+'' \<notin> set (concat (split_plus s))"
  by (induction s) (auto split: list.splits)

lemma parse_part_token:
  "parse_part (ms, k) p =
     (if lower (strip p) \<in> set modifier_words then (ms @ [modifier_name (lower (strip p))], k)
      else (ms, Some (lower (strip p))))"
  by (simp add: parse_part_def modifier_words_def modifier_name_def Let_def)

lemma parse_fold:
  "foldl parse_part (ms, k) ps =
     (ms @ map modifier_name (filter (\<lambda>t. t \<in> set modifier_words) (map (\<lambda>p. lower (strip p)) ps)),
      case filter (\<lambda>t. t \<notin> set modifier_words) (map (\<lambda>p. lower (strip p)) ps) of
        [] \<Rightarrow> k
      | t # ts \<Rightarrow> Some (last (t # ts)))"
proof (induction ps arbitrary: ms k)
  case Nil
  then show ?case by simp
next
  case (Cons p ps)
  show ?case
  proof (cases "lower (strip p) \<in> set modifier_words")
    case True
    then show ?thesis by (simp add: parse_part_token Cons.IH)
  next
    case False
    then show ?thesis by (simp add: parse_part_token Cons.IH split: list.splits)
  qed
qed

lemma parse_key: "snd (parse_key_combination combo) = spec_key combo"
  by (simp add: parse_key_combination_def parse_fold spec_key_def tokens_def)

lemma modifier_names_set:
  "set (map modifier_name (filter (\<lambda>t. t \<in> set modifier_words) toks)) =
     (if ''ctrl'' \<in> set toks \<or> ''control'' \<in> set toks then {''ctrl''} else {}) \<union>
     (if ''shift'' \<in> set toks then {''shift''} else {}) \<union>
     (if ''alt'' \<in> set toks then {''alt''} else {})"
  by (induction toks) (auto simp: modifier_words_def modifier_name_def)

lemma parse_modifiers: "set (fst (parse_key_combination combo)) = spec_modifiers combo"
  unfolding spec_modifiers_def tokens_def
  by (simp only: parse_key_combination_def parse_fold fst_conv append_Nil modifier_names_set)

text \<open>
  Claim C2. Parsing a combo splits it at the plus signs (the pieces hold no plus sign and
  give the combo back when joined), trims and lowercases each piece, collects
  \<open>ctrl\<close> (also written \<open>control\<close>), \<open>shift\<close> and \<open>alt\<close> as the modifiers, a repeated
  modifier counting once, and takes the last token that is no modifier word as the
  primary key. \<open>Ctrl+Shift+z\<close> gives the modifiers ctrl and shift and the key \<open>z\<close>;
  \<open>Return\<close> gives no modifier and the key \<open>return\<close>.
\<close>

theorem parse_key_combination_spec:
  "set (fst (parse_key_combination combo)) = spec_modifiers combo
   \<and> snd (parse_key_combination combo) = spec_key combo
   \<and> join_plus (split_plus combo) = combo
   \<and> CHR ''+'' \<notin> set (concat (split_plus combo))
   \<and> parse_key_combination ''Ctrl+Shift+z'' = ([''ctrl'', ''shift''], Some ''z'')
   \<and> parse_key_combination ''Return'' = ([], Some ''return'')
   \<and> set (fst (parse_key_combination ''Ctrl+Control+a+ B '')) = {''ctrl''}
   \<and> snd (parse_key_combination ''Ctrl+Control+a+ B '') = Some ''b''"
proof -
  have a: "parse_key_combination ''Ctrl+Shift+z'' = ([''ctrl'', ''shift''], Some ''z'')"
    by code_simp
  have b: "parse_key_combination ''Return'' = ([], Some ''return'')"
    by code_simp
  have c: "parse_key_combination ''Ctrl+Control+a+ B '' = ([''ctrl'', ''ctrl''], Some ''b'')"
    by code_simp
  have d: "set (fst (parse_key_combination ''Ctrl+Control+a+ B '')) = {''ctrl''}"
    by (simp add: c)
  have e: "snd (parse_key_combination ''Ctrl+Control+a+ B '') = Some ''b''"
    by (simp add: c)
  show ?thesis
    using parse_modifiers [of combo] parse_key [of combo] join_split [of combo]
      split_pieces_free [of combo] a b d e
    by blast
qed


section \<open>The tracked state across sessions\<close>

lemma detect_controller_keeps:
  "last_state (fst (detect_controller env s)) = last_state s"
  by (simp add: detect_controller_def split: option.splits)

lemma polling_entry_keeps:
  "polling_entry env s = Some s1 \<Longrightarrow> last_state s1 = last_state s"
  by (auto simp: polling_entry_def Let_def detect_controller_keeps split: if_splits)

text \<open>
  Claim C4, as stated, fails. After a session that opened the device with button A
  down, the same remapper object is started again: on entry to the polling loop its state
  still holds \<open>button_0\<close> as active, and the record for A, dispatched in a fresh
  remapper, is not dispatched. The combo of A is a blank, whose dispatch returns before
  any name of the Qt binding is read.
\<close>

theorem polling_entry_stale_state:
  "polling_entry env_js0 (start after_first_session) \<noteq> None
   \<and> last_state (the (polling_entry env_js0 (start after_first_session))) ''button_0'' = Some True
   \<and> snd (session pyqt6 (Some (0::nat)) env_js0 [[press_A]] after_first_session) = []
   \<and> snd (session pyqt6 (Some (0::nat)) env_js0 [[press_A]] (remapper_init DEFAULT_MAPPINGS)) = ['' '']"
  by code_simp

text \<open>
  Claim C4, amended. The tracked state is empty when the remapper object is constructed.
  Entering the polling loop leaves it as it was, and so do \<open>start\<close>, \<open>stop\<close> and a
  \<open>run_loop\<close> without ticks: flags tracked before a restart are still there after it.
\<close>

theorem state_reset_only_at_construction:
  "last_state (remapper_init loaded) = Map.empty
   \<and> (polling_entry env s = Some s1 \<longrightarrow> last_state s1 = last_state s)
   \<and> last_state (start s) = last_state s \<and> last_state (stop s) = last_state s
   \<and> last_state (fst (run_loop b focus env [] s)) = last_state s"
proof -
  have "last_state (fst (run_loop b focus env [] s)) = last_state s"
    by (auto simp: run_loop_def Let_def detect_controller_keeps dest: polling_entry_keeps
        split: option.splits)
  then show ?thesis
    by (auto simp: remapper_init_def start_def stop_def dest: polling_entry_keeps)
qed

text \<open>The second entry to the polling loop of the remapper used above.\<close>

theorem state_reset_only_at_construction_witness:
  "polling_entry env_js0 (start after_first_session) =
      Some ((start after_first_session)\<lparr>js_device := Some ''/dev/input/js0''\<rparr>)
   \<and> last_state ((start after_first_session)\<lparr>js_device := Some ''/dev/input/js0''\<rparr>) =
       last_state (start after_first_session)"
proof -
  have e: "polling_entry env_js0 (start after_first_session) =
      Some ((start after_first_session)\<lparr>js_device := Some ''/dev/input/js0''\<rparr>)"
  proof -
    have "find_joystick_device env_js0 = Some ''/dev/input/js0''" by code_simp
    then show ?thesis
      by (simp add: polling_entry_def detect_controller_def is_8bitdo_controller_def env_js0_def)
  qed
  with state_reset_only_at_construction [of "[]" env_js0 "start after_first_session"
      "(start after_first_session)\<lparr>js_device := Some ''/dev/input/js0''\<rparr>"]
  show ?thesis by blast
qed


section \<open>Configuration file\<close>

lemma default_size: "length DEFAULT_MAPPINGS = 14"
  by (simp add: DEFAULT_MAPPINGS_def)

lemma default_keys: "distinct (map fst DEFAULT_MAPPINGS)"
  by (simp add: DEFAULT_MAPPINGS_def)

text \<open>
  Claim C5. When the configuration file is missing, cannot be read, or does not parse,
  \<open>load_config\<close> returns the built-in default mapping, with its fourteen entries under
  distinct identifiers, and no exception.
\<close>

theorem load_failure_gives_defaults:
  assumes "\<not> cfg_exists fs \<or> \<not> cfg_readable fs \<or> (\<exists>x. json_load (cfg_content fs) = Inl x)"
  shows "load_config json_load fs = Inr (Mapping_doc DEFAULT_MAPPINGS)
    \<and> length DEFAULT_MAPPINGS = 14 \<and> distinct (map fst DEFAULT_MAPPINGS)"
  using assms by (auto simp: load_config_def open_read_def default_size default_keys)

text \<open>A missing file, an unreadable file and a file holding only an opening brace.\<close>

theorem load_failure_gives_defaults_witness:
  "load_config (json_loads (\<lambda>txt. Inr Other_doc))
      \<lparr>cfg_exists = False, cfg_readable = True, cfg_writable = True, cfg_content = []\<rparr>
     = Inr (Mapping_doc DEFAULT_MAPPINGS)
   \<and> load_config (json_loads (\<lambda>txt. Inr Other_doc))
      \<lparr>cfg_exists = True, cfg_readable = False, cfg_writable = True, cfg_content = ''{}''\<rparr>
     = Inr (Mapping_doc DEFAULT_MAPPINGS)
   \<and> json_loads (\<lambda>txt. Inr Other_doc) ''{'' = Inl Decode_error
   \<and> load_config (json_loads (\<lambda>txt. Inr Other_doc))
      \<lparr>cfg_exists = True, cfg_readable = True, cfg_writable = True, cfg_content = ''{''\<rparr>
     = Inr (Mapping_doc DEFAULT_MAPPINGS)"
proof -
  have bad: "json_loads (\<lambda>txt. Inr Other_doc) ''{'' = Inl Decode_error" by code_simp
  have a: "load_config (json_loads (\<lambda>txt. Inr Other_doc))
      \<lparr>cfg_exists = False, cfg_readable = True, cfg_writable = True, cfg_content = []\<rparr>
     = Inr (Mapping_doc DEFAULT_MAPPINGS)"
    using load_failure_gives_defaults [of
        "\<lparr>cfg_exists = False, cfg_readable = True, cfg_writable = True, cfg_content = []\<rparr>" "json_loads (\<lambda>txt. Inr Other_doc)"]
    by simp
  have b: "load_config (json_loads (\<lambda>txt. Inr Other_doc))
      \<lparr>cfg_exists = True, cfg_readable = False, cfg_writable = True, cfg_content = ''{}''\<rparr>
     = Inr (Mapping_doc DEFAULT_MAPPINGS)"
    using load_failure_gives_defaults [of
        "\<lparr>cfg_exists = True, cfg_readable = False, cfg_writable = True, cfg_content = ''{}''\<rparr>" "json_loads (\<lambda>txt. Inr Other_doc)"]
    by simp
  have c: "load_config (json_loads (\<lambda>txt. Inr Other_doc))
      \<lparr>cfg_exists = True, cfg_readable = True, cfg_writable = True, cfg_content = ''{''\<rparr>
     = Inr (Mapping_doc DEFAULT_MAPPINGS)"
    using load_failure_gives_defaults [of
        "\<lparr>cfg_exists = True, cfg_readable = True, cfg_writable = True, cfg_content = ''{''\<rparr>" "json_loads (\<lambda>txt. Inr Other_doc)"]
      bad
    by simp
  show ?thesis using a b c bad by simp
qed

text \<open>
  Claim C6. Saving a mapping, a list of entries under distinct identifiers, and then
  loading gives the mapping back, entry for entry and so equal as a map from identifiers
  to combos: the text \<open>json.dump\<close> writes is one \<open>json.load\<close> reads back to the same
  entries, whatever the strings. The file must accept the write and the read.
\<close>

theorem save_then_load:
  assumes "distinct (map fst m)" and "cfg_writable fs" and "cfg_readable fs"
  shows "\<exists>fs'. save_config json_dumps m fs = Inr fs'
    \<and> cfg_content fs' = json_dumps m
    \<and> load_config (json_loads other) fs' = Inr (Mapping_doc m)
    \<and> (\<forall>d. load_config (json_loads other) fs' = Inr (Mapping_doc d) \<longrightarrow> map_of d = map_of m)"
  using assms by (simp add: save_config_def load_config_def open_read_def json_round_trip)

text \<open>The default mapping saved to a file that did not exist.\<close>

theorem save_then_load_witness:
  "distinct (map fst DEFAULT_MAPPINGS)
   \<and> (\<exists>fs'. save_config json_dumps DEFAULT_MAPPINGS
          \<lparr>cfg_exists = False, cfg_readable = True, cfg_writable = True, cfg_content = []\<rparr> = Inr fs'
        \<and> load_config (json_loads (\<lambda>txt. Inr Other_doc)) fs' = Inr (Mapping_doc DEFAULT_MAPPINGS))"
proof -
  from save_then_load [of DEFAULT_MAPPINGS
      "\<lparr>cfg_exists = False, cfg_readable = True, cfg_writable = True, cfg_content = []\<rparr>"
      "\<lambda>txt. Inr Other_doc", OF default_keys]
  have "\<exists>fs'. save_config json_dumps DEFAULT_MAPPINGS
          \<lparr>cfg_exists = False, cfg_readable = True, cfg_writable = True, cfg_content = []\<rparr> = Inr fs'
        \<and> load_config (json_loads (\<lambda>txt. Inr Other_doc)) fs' = Inr (Mapping_doc DEFAULT_MAPPINGS)"
    by auto
  with default_keys show ?thesis by blast
qed

section \<open>The init bit and the two branches\<close>

lemma init_and_button: "(t OR JS_EVENT_INIT) AND JS_EVENT_BUTTON = t AND JS_EVENT_BUTTON"
  by (simp add: JS_EVENT_INIT_def JS_EVENT_BUTTON_def bit.conj_disj_distrib2)

lemma init_and_axis: "(t OR JS_EVENT_INIT) AND JS_EVENT_AXIS = t AND JS_EVENT_AXIS"
  by (simp add: JS_EVENT_INIT_def JS_EVENT_AXIS_def bit.conj_disj_distrib2)

lemma clear_init_and_button: "(t AND NOT JS_EVENT_INIT) AND JS_EVENT_BUTTON = t AND JS_EVENT_BUTTON"
  by (simp add: JS_EVENT_INIT_def JS_EVENT_BUTTON_def and.assoc)

lemma clear_init_and_axis: "(t AND NOT JS_EVENT_INIT) AND JS_EVENT_AXIS = t AND JS_EVENT_AXIS"
  by (simp add: JS_EVENT_INIT_def JS_EVENT_AXIS_def and.assoc)

lemma button_branch_type: "button_branch b f mp (e\<lparr>ev_type := t\<rparr>) ls = button_branch b f mp e ls"
  by (simp add: button_branch_def)

lemma axis_branch_type: "axis_branch b f mp (e\<lparr>ev_type := t\<rparr>) ls = axis_branch b f mp e ls"
  by (simp add: axis_branch_def)

lemma handle_event_retyped:
  assumes "t AND JS_EVENT_BUTTON = ev_type e AND JS_EVENT_BUTTON"
    and "t AND JS_EVENT_AXIS = ev_type e AND JS_EVENT_AXIS"
  shows "handle_event b f mp (e\<lparr>ev_type := t\<rparr>) ls = handle_event b f mp e ls"
  using assms by (simp add: handle_event_def button_branch_type axis_branch_type)

lemma button_branch_flag:
  assumes "snd (snd (button_branch b f mp e ls)) = None"
  shows "fst (button_branch b f mp e ls) (button_key (ev_number e)) = Some (ev_value e \<noteq> 0)"
  using assms by (auto simp: button_branch_def Let_def split: option.splits)

lemma axis_pressed_eq:
  "axis_pressed b f mp key name ls =
     (if inactive ls key then
        (case snd (dispatch b f mp name) of
           Some x \<Rightarrow> (ls, fst (dispatch b f mp name), Some x)
         | None \<Rightarrow> (ls(key \<mapsto> True), fst (dispatch b f mp name), None))
      else (ls(key \<mapsto> True), [], None))"
  by (auto simp: axis_pressed_def get_state_def inactive_def Let_def split: option.splits)

lemma axis_pressed_flag:
  assumes "snd (snd (axis_pressed b f mp key name ls)) = None"
  shows "fst (axis_pressed b f mp key name ls) key = Some True"
  using assms by (auto simp: axis_pressed_eq split: option.splits if_splits)

lemma axis_branch_right_flag:
  assumes "ev_number e = 0" "normalized (ev_value e) > 0.5"
    and "snd (snd (axis_branch b f mp e ls)) = None"
  shows "fst (axis_branch b f mp e ls) ''axis_0_RIGHT'' = Some True"
proof -
  have "axis_branch b f mp e ls = axis_pressed b f mp ''axis_0_RIGHT'' ''RIGHT'' ls"
    using assms(1,2) by (simp add: axis_branch_def)
  then show ?thesis using assms(3) axis_pressed_flag [of b f mp "''axis_0_RIGHT''" "''RIGHT''" ls]
    by simp
qed

text \<open>
  Claim C9, as stated, fails. A record whose type has the init, axis and button bits
  (\<open>0x83\<close>), on number 0 at full deflection, gets no axis handling: it is handled as
  button 0 and the flag of the right direction stays unset, where the same record with
  type \<open>0x82\<close> sets it.
\<close>

theorem both_bits_no_axis_handling:
  "ev_type (full_deflection 0x83) AND JS_EVENT_INIT \<noteq> 0
   \<and> ev_type (full_deflection 0x83) AND JS_EVENT_AXIS \<noteq> 0
   \<and> fst (handle_event pyqt6 (Some (0::nat)) Map.empty (full_deflection 0x83) Map.empty)
        ''axis_0_RIGHT'' = None
   \<and> fst (handle_event pyqt6 (Some (0::nat)) Map.empty (full_deflection 0x83) Map.empty)
        ''button_0'' = Some True
   \<and> fst (handle_event pyqt6 (Some (0::nat)) Map.empty (full_deflection 0x82) Map.empty)
        ''axis_0_RIGHT'' = Some True"
  by code_simp

text \<open>
  Claim C9, amended. Setting or clearing the init bit \<open>0x80\<close> in the type of a record
  changes nothing in how it is handled. With or without it, button handling triggers
  whenever the button bit is set: the record goes through the button branch, which, when
  it ends without an exception, has written the flag of the button from the value. Axis
  handling triggers whenever the axis bit is set and the button bit is not: the record
  goes through the axis branch, which on axis 0 above the threshold, when it ends without
  an exception, has set the flag of the right direction. A record with neither bit is
  ignored.
\<close>

theorem init_bit_regardless:
  "handle_event b f mp (e\<lparr>ev_type := ev_type e OR JS_EVENT_INIT\<rparr>) ls = handle_event b f mp e ls
   \<and> handle_event b f mp (e\<lparr>ev_type := ev_type e AND NOT JS_EVENT_INIT\<rparr>) ls = handle_event b f mp e ls
   \<and> (ev_type e AND JS_EVENT_BUTTON \<noteq> 0 \<longrightarrow>
        handle_event b f mp (e\<lparr>ev_type := ev_type e OR JS_EVENT_INIT\<rparr>) ls = button_branch b f mp e ls
      \<and> (snd (snd (button_branch b f mp e ls)) = None \<longrightarrow>
           fst (button_branch b f mp e ls) (button_key (ev_number e)) = Some (ev_value e \<noteq> 0)))
   \<and> (ev_type e AND JS_EVENT_BUTTON = 0 \<and> ev_type e AND JS_EVENT_AXIS \<noteq> 0 \<longrightarrow>
        handle_event b f mp (e\<lparr>ev_type := ev_type e OR JS_EVENT_INIT\<rparr>) ls = axis_branch b f mp e ls
      \<and> (ev_number e = 0 \<and> normalized (ev_value e) > 0.5
          \<and> snd (snd (axis_branch b f mp e ls)) = None \<longrightarrow>
           fst (axis_branch b f mp e ls) ''axis_0_RIGHT'' = Some True))
   \<and> (ev_type e AND JS_EVENT_BUTTON = 0 \<and> ev_type e AND JS_EVENT_AXIS = 0 \<longrightarrow>
        handle_event b f mp (e\<lparr>ev_type := ev_type e OR JS_EVENT_INIT\<rparr>) ls = (ls, [], None))"
proof -
  have a: "handle_event b f mp (e\<lparr>ev_type := ev_type e OR JS_EVENT_INIT\<rparr>) ls = handle_event b f mp e ls"
    by (rule handle_event_retyped) (simp_all add: init_and_button init_and_axis)
  have c: "handle_event b f mp (e\<lparr>ev_type := ev_type e AND NOT JS_EVENT_INIT\<rparr>) ls = handle_event b f mp e ls"
    by (rule handle_event_retyped) (simp_all add: clear_init_and_button clear_init_and_axis)
  have bt: "handle_event b f mp e ls = button_branch b f mp e ls"
    if "ev_type e AND JS_EVENT_BUTTON \<noteq> 0"
    using that by (simp add: handle_event_def)
  have ax: "handle_event b f mp e ls = axis_branch b f mp e ls"
    if "ev_type e AND JS_EVENT_BUTTON = 0" "ev_type e AND JS_EVENT_AXIS \<noteq> 0"
    using that by (simp add: handle_event_def)
  have no: "handle_event b f mp e ls = (ls, [], None)"
    if "ev_type e AND JS_EVENT_BUTTON = 0" "ev_type e AND JS_EVENT_AXIS = 0"
    using that by (simp add: handle_event_def)
  show ?thesis
    using a c bt ax no button_branch_flag [of b f mp e ls] axis_branch_right_flag [of e b f mp ls]
    by (simp only:) blast
qed

text \<open>The record of button X going down, with the init bit, under the default mappings.\<close>

theorem init_bit_regardless_witness:
  "ev_type (button_record 2 1) AND JS_EVENT_BUTTON \<noteq> 0
   \<and> handle_event pyqt6 (Some (0::nat)) (map_of DEFAULT_MAPPINGS)
        ((button_record 2 1)\<lparr>ev_type := ev_type (button_record 2 1) OR JS_EVENT_INIT\<rparr>) Map.empty
      = button_branch pyqt6 (Some (0::nat)) (map_of DEFAULT_MAPPINGS) (button_record 2 1) Map.empty
   \<and> snd (button_branch pyqt6 (Some (0::nat)) (map_of DEFAULT_MAPPINGS) (button_record 2 1) Map.empty)
      = ([''z''], None)
   \<and> fst (button_branch pyqt6 (Some (0::nat)) (map_of DEFAULT_MAPPINGS) (button_record 2 1) Map.empty)
        (button_key (ev_number (button_record 2 1))) = Some True"
proof -
  have h: "ev_type (button_record 2 1) AND JS_EVENT_BUTTON \<noteq> 0"
    by (simp add: button_record_def JS_EVENT_BUTTON_def)
  have r: "snd (button_branch pyqt6 (Some (0::nat)) (map_of DEFAULT_MAPPINGS) (button_record 2 1) Map.empty)
      = ([''z''], None)"
    by code_simp
  have v: "ev_value (button_record 2 1) \<noteq> 0" by (simp add: button_record_def)
  have n: "snd (snd (button_branch pyqt6 (Some (0::nat)) (map_of DEFAULT_MAPPINGS) (button_record 2 1)
      Map.empty)) = None"
    by (simp add: r)
  note t = init_bit_regardless [of pyqt6 "Some (0::nat)" "map_of DEFAULT_MAPPINGS"
      "button_record 2 1" Map.empty]
  from t h have x: "handle_event pyqt6 (Some (0::nat)) (map_of DEFAULT_MAPPINGS)
        ((button_record 2 1)\<lparr>ev_type := ev_type (button_record 2 1) OR JS_EVENT_INIT\<rparr>) Map.empty
      = button_branch pyqt6 (Some (0::nat)) (map_of DEFAULT_MAPPINGS) (button_record 2 1) Map.empty"
    by blast
  from t h n have "fst (button_branch pyqt6 (Some (0::nat)) (map_of DEFAULT_MAPPINGS) (button_record 2 1)
        Map.empty) (button_key (ev_number (button_record 2 1))) = Some (ev_value (button_record 2 1) \<noteq> 0)"
    by blast
  then have y: "fst (button_branch pyqt6 (Some (0::nat)) (map_of DEFAULT_MAPPINGS) (button_record 2 1)
        Map.empty) (button_key (ev_number (button_record 2 1))) = Some True"
    using v by simp
  show ?thesis using h x r y by blast
qed

section \<open>Buttons: dispatch on the rising edge\<close>

lemma get_state_inactive: "get_state ls key \<longleftrightarrow> \<not> inactive ls key"
  by (auto simp: get_state_def inactive_def split: option.splits)

lemma dispatch_mapped:
  assumes "mp name = Some combo" "combo \<noteq> []"
  shows "dispatch b f mp name =
    ([combo], case send_key_event b f combo of Inl x \<Rightarrow> Some x | Inr sent \<Rightarrow> None)"
  using assms by (simp add: dispatch_def)

lemma handle_press:
  assumes "is_press n e" "CONTROLLER_BUTTONS n = Some name" "mp name = Some combo" "combo \<noteq> []"
  shows "handle_event b f mp e ls =
    (if inactive ls (button_key n) then
       (case send_key_event b f combo of
          Inl x \<Rightarrow> (ls, [combo], Some x)
        | Inr sent \<Rightarrow> (ls(button_key n \<mapsto> True), [combo], None))
     else (ls(button_key n \<mapsto> True), [], None))"
  using assms
  by (simp add: handle_event_def button_branch_def is_press_def get_state_inactive
      dispatch_mapped [of mp name combo] Let_def split: sum.splits)

lemma active_upd: "\<not> inactive ls key \<Longrightarrow> ls(key \<mapsto> True) = ls"
  by (auto simp: inactive_def fun_eq_iff)

lemma held_no_dispatch:
  assumes "\<forall>e\<in>set es. is_press n e" "\<not> inactive ls (button_key n)"
    and "CONTROLLER_BUTTONS n = Some name" "mp name = Some combo" "combo \<noteq> []"
  shows "handle_events b f mp es ls = (ls, [], None)"
  using assms(1)
proof (induction es)
  case Nil
  then show ?case by simp
next
  case (Cons e es)
  have p: "is_press n e" using Cons.prems by simp
  have h: "handle_event b f mp e ls = (ls, [], None)"
    using handle_press [of n e name mp combo b f ls, OF p assms(3,4,5)] assms(2)
    by (simp add: active_upd)
  have "handle_events b f mp es ls = (ls, [], None)" using Cons by simp
  then show ?case by (simp add: h)
qed

text \<open>
  Claim C1. For a button with a name and a non-empty mapped combo, a record with the
  button bit set and a non-zero value passes the combo to \<open>send_key_event\<close> exactly when
  the tracked state of that button was inactive (false or absent). When the state was
  active nothing is dispatched and the state stays as it is. When it was inactive and the
  call returns, the flag is set; when the call raises, the flag is left unset and the
  exception ends the run. Either way a run of such records dispatches the combo once if
  the button was inactive before it and not at all if it was active.
\<close>

theorem button_rising_edge:
  assumes "CONTROLLER_BUTTONS n = Some name" "mp name = Some combo" "combo \<noteq> []"
  shows "(\<forall>e. is_press n e \<longrightarrow>
            fst (snd (handle_event b f mp e ls)) = (if inactive ls (button_key n) then [combo] else [])
          \<and> (\<not> inactive ls (button_key n) \<longrightarrow> handle_event b f mp e ls = (ls, [], None))
          \<and> (inactive ls (button_key n) \<longrightarrow>
               (\<forall>sent. send_key_event b f combo = Inr sent \<longrightarrow>
                  handle_event b f mp e ls = (ls(button_key n \<mapsto> True), [combo], None))
             \<and> (\<forall>x. send_key_event b f combo = Inl x \<longrightarrow>
                  handle_event b f mp e ls = (ls, [combo], Some x))))
       \<and> (\<forall>es. es \<noteq> [] \<and> (\<forall>e\<in>set es. is_press n e) \<longrightarrow>
            fst (snd (handle_events b f mp es ls)) = (if inactive ls (button_key n) then [combo] else []))"
proof (intro conjI allI impI)
  fix e assume p: "is_press n e"
  note m = handle_press [of n e name mp combo b f ls, OF p assms]
  show "fst (snd (handle_event b f mp e ls)) = (if inactive ls (button_key n) then [combo] else [])"
    by (simp add: m split: sum.splits)
  show "handle_event b f mp e ls = (ls, [], None)" if "\<not> inactive ls (button_key n)"
    using that by (simp add: m active_upd)
  show "handle_event b f mp e ls = (ls(button_key n \<mapsto> True), [combo], None)"
    if "inactive ls (button_key n)" "send_key_event b f combo = Inr sent" for sent
    using that by (simp add: m)
  show "handle_event b f mp e ls = (ls, [combo], Some x)"
    if "inactive ls (button_key n)" "send_key_event b f combo = Inl x" for x
    using that by (simp add: m)
next
  fix es assume a: "es \<noteq> [] \<and> (\<forall>e\<in>set es. is_press n e)"
  then obtain e es' where es: "es = e # es'" by (cases es) auto
  have p: "is_press n e" and ps: "\<forall>e\<in>set es'. is_press n e" using a es by auto
  note m = handle_press [of n e name mp combo b f ls, OF p assms]
  show "fst (snd (handle_events b f mp es ls)) = (if inactive ls (button_key n) then [combo] else [])"
  proof (cases "inactive ls (button_key n)")
    case False
    have "\<forall>e\<in>set es. is_press n e" using a by simp
    with held_no_dispatch [where es = es and n = n and ls = ls and name = name and mp = mp
        and combo = combo and b = b and f = f] False assms
    show ?thesis by simp
  next
    case True
    show ?thesis
    proof (cases "send_key_event b f combo")
      case (Inl x)
      then show ?thesis using True by (simp add: es m)
    next
      case (Inr sent)
      define ls' where "ls' = ls(button_key n \<mapsto> True)"
      have h: "handle_event b f mp e ls = (ls', [combo], None)"
        using True Inr by (simp add: m ls'_def)
      have "\<not> inactive ls' (button_key n)" by (simp add: ls'_def inactive_def)
      with held_no_dispatch [where es = es' and n = n and ls = ls' and name = name and mp = mp
          and combo = combo and b = b and f = f] ps assms
      have "handle_events b f mp es' ls' = (ls', [], None)" by simp
      then show ?thesis using True by (simp add: es h)
    qed
  qed
qed

text \<open>
  Under PyQt6 and the default mappings, from a fresh state: button X, whose combo \<open>z\<close>
  resolves to no key and returns, and button B, whose combo \<open>Return\<close> raises.
\<close>

theorem button_rising_edge_witness:
  "CONTROLLER_BUTTONS 2 = Some ''X'' \<and> map_of DEFAULT_MAPPINGS ''X'' = Some ''z''
   \<and> is_press 2 (button_record 2 1) \<and> inactive Map.empty (button_key 2)
   \<and> send_key_event pyqt6 (Some (0::nat)) ''z'' = Inr []
   \<and> handle_event pyqt6 (Some (0::nat)) (map_of DEFAULT_MAPPINGS) (button_record 2 1) Map.empty =
       (Map.empty(button_key 2 \<mapsto> True), [''z''], None)
   \<and> fst (snd (handle_events pyqt6 (Some (0::nat)) (map_of DEFAULT_MAPPINGS)
        [button_record 2 1, button_record 2 1] Map.empty)) = [''z'']
   \<and> CONTROLLER_BUTTONS 1 = Some ''B'' \<and> map_of DEFAULT_MAPPINGS ''B'' = Some ''Return''
   \<and> is_press 1 (button_record 1 1) \<and> inactive Map.empty (button_key 1)
   \<and> send_key_event pyqt6 (Some (0::nat)) ''Return'' = Inl Attribute_error
   \<and> handle_event pyqt6 (Some (0::nat)) (map_of DEFAULT_MAPPINGS) (button_record 1 1) Map.empty =
       (Map.empty, [''Return''], Some Attribute_error)
   \<and> fst (snd (handle_events pyqt6 (Some (0::nat)) (map_of DEFAULT_MAPPINGS)
        [button_record 1 1, button_record 1 1] Map.empty)) = [''Return'']"
proof -
  have x1: "CONTROLLER_BUTTONS 2 = Some ''X''" by (simp add: CONTROLLER_BUTTONS_def)
  have x2: "map_of DEFAULT_MAPPINGS ''X'' = Some ''z''" by (simp add: DEFAULT_MAPPINGS_def)
  have x3: "''z'' \<noteq> []" by simp
  have xp: "is_press 2 (button_record 2 1)"
    by (simp add: is_press_def button_record_def JS_EVENT_BUTTON_def)
  have xi: "inactive Map.empty (button_key 2)" by (simp add: inactive_def)
  have xs: "send_key_event pyqt6 (Some (0::nat)) ''z'' = Inr []" by code_simp
  note tx = button_rising_edge [of 2 "''X''" "map_of DEFAULT_MAPPINGS" "''z''" pyqt6 "Some (0::nat)"
      Map.empty, OF x1 x2 x3]
  have xa: "handle_event pyqt6 (Some (0::nat)) (map_of DEFAULT_MAPPINGS) (button_record 2 1) Map.empty =
       (Map.empty(button_key 2 \<mapsto> True), [''z''], None)"
    using tx xp xi xs by blast
  have xb: "fst (snd (handle_events pyqt6 (Some (0::nat)) (map_of DEFAULT_MAPPINGS)
        [button_record 2 1, button_record 2 1] Map.empty)) = [''z'']"
    using conjunct2 [OF tx, THEN spec, of "[button_record 2 1, button_record 2 1]"] xp xi by simp
  have b1: "CONTROLLER_BUTTONS 1 = Some ''B''" by (simp add: CONTROLLER_BUTTONS_def)
  have b2: "map_of DEFAULT_MAPPINGS ''B'' = Some ''Return''" by (simp add: DEFAULT_MAPPINGS_def)
  have b3: "''Return'' \<noteq> []" by simp
  have bp: "is_press 1 (button_record 1 1)"
    by (simp add: is_press_def button_record_def JS_EVENT_BUTTON_def)
  have bi: "inactive Map.empty (button_key 1)" by (simp add: inactive_def)
  have bs: "send_key_event pyqt6 (Some (0::nat)) ''Return'' = Inl Attribute_error" by code_simp
  note tb = button_rising_edge [of 1 "''B''" "map_of DEFAULT_MAPPINGS" "''Return''" pyqt6
      "Some (0::nat)" Map.empty, OF b1 b2 b3]
  have ba: "handle_event pyqt6 (Some (0::nat)) (map_of DEFAULT_MAPPINGS) (button_record 1 1) Map.empty =
       (Map.empty, [''Return''], Some Attribute_error)"
    using tb bp bi bs by blast
  have bb: "fst (snd (handle_events pyqt6 (Some (0::nat)) (map_of DEFAULT_MAPPINGS)
        [button_record 1 1, button_record 1 1] Map.empty)) = [''Return'']"
    using conjunct2 [OF tb, THEN spec, of "[button_record 1 1, button_record 1 1]"] bp bi by simp
  show ?thesis using x1 x2 xp xi xs xa xb b1 b2 bp bi bs ba bb by blast
qed

section \<open>Axes: thresholds and deadzone\<close>

lemma below_int: "real_of_int x / 32767 < - 0.5 \<longleftrightarrow> x \<le> - 16384"
proof -
  have "real_of_int x / 32767 < - 0.5 \<longleftrightarrow> real_of_int x * 2 < real_of_int (- 32767)"
    by (simp add: field_simps)
  also have "\<dots> \<longleftrightarrow> x * 2 < - 32767"
    by (metis of_int_less_iff of_int_mult of_int_numeral)
  also have "\<dots> \<longleftrightarrow> x \<le> - 16384" by presburger
  finally show ?thesis .
qed

lemma above_int: "real_of_int x / 32767 > 0.5 \<longleftrightarrow> x \<ge> 16384"
proof -
  have "real_of_int x / 32767 > 0.5 \<longleftrightarrow> real_of_int 32767 < real_of_int x * 2"
    by (simp add: field_simps)
  also have "\<dots> \<longleftrightarrow> 32767 < x * 2"
    by (metis of_int_less_iff of_int_mult of_int_numeral)
  also have "\<dots> \<longleftrightarrow> x \<ge> 16384" by presburger
  finally show ?thesis .
qed

lemma below_threshold: "normalized v < - 0.5 \<longleftrightarrow> sint v \<le> - 16384"
  unfolding normalized_def by (rule below_int)

lemma above_threshold: "normalized v > 0.5 \<longleftrightarrow> sint v \<ge> 16384"
  unfolding normalized_def by (rule above_int)

lemma handle_axis0:
  assumes "is_axis 0 e"
  shows "handle_event b f mp e ls =
    (if normalized (ev_value e) < - 0.5 then axis_pressed b f mp ''axis_0_LEFT'' ''LEFT'' ls
     else if normalized (ev_value e) > 0.5 then axis_pressed b f mp ''axis_0_RIGHT'' ''RIGHT'' ls
     else (ls(''axis_0_LEFT'' := None, ''axis_0_RIGHT'' := None), [], None))"
  using assms by (simp add: is_axis_def handle_event_def axis_branch_def)

lemma handle_axis1:
  assumes "is_axis 1 e"
  shows "handle_event b f mp e ls =
    (if normalized (ev_value e) < - 0.5 then axis_pressed b f mp ''axis_1_UP'' ''UP'' ls
     else if normalized (ev_value e) > 0.5 then axis_pressed b f mp ''axis_1_DOWN'' ''DOWN'' ls
     else (ls(''axis_1_UP'' := None, ''axis_1_DOWN'' := None), [], None))"
  using assms by (simp add: is_axis_def handle_event_def axis_branch_def)

lemma axis_pressed_returns:
  assumes "mp name = Some combo" "combo \<noteq> []" "send_key_event b f combo = Inr sent"
  shows "axis_pressed b f mp key name ls =
    (ls(key \<mapsto> True), if inactive ls key then [combo] else [], None)"
  using assms by (simp add: axis_pressed_eq dispatch_mapped [of mp name combo])

lemma axis_pressed_raises:
  assumes "mp name = Some combo" "combo \<noteq> []" "send_key_event b f combo = Inl x"
    and "inactive ls key"
  shows "axis_pressed b f mp key name ls = (ls, [combo], Some x)"
  using assms by (simp add: axis_pressed_eq dispatch_mapped [of mp name combo])

text \<open>
  What the sequence of claim C3 does when the two dispatches return: LEFT at the first
  record, nothing at the second and third, both flags cleared by the third, RIGHT at the
  fourth.
\<close>

lemma axis0_sequence_returns:
  assumes a: "is_axis 0 e1" "is_axis 0 e2" "is_axis 0 e3" "is_axis 0 e4"
    and v1: "normalized (ev_value e1) < - 0.5" and v2: "normalized (ev_value e2) < - 0.5"
    and v3: "- 0.5 \<le> normalized (ev_value e3)" "normalized (ev_value e3) \<le> 0.5"
    and v4: "normalized (ev_value e4) > 0.5"
    and i: "inactive ls ''axis_0_LEFT''"
    and l: "mp ''LEFT'' = Some l" "l \<noteq> []" "send_key_event b f l = Inr sl"
    and r: "mp ''RIGHT'' = Some r" "r \<noteq> []" "send_key_event b f r = Inr sr"
  shows "handle_events b f mp [e1, e2, e3, e4] ls =
    (ls(''axis_0_LEFT'' := None, ''axis_0_RIGHT'' \<mapsto> True), [l, r], None)
    \<and> handle_events b f mp [e1, e2, e3] ls =
        (ls(''axis_0_LEFT'' := None, ''axis_0_RIGHT'' := None), [l], None)"
proof -
  define s1 where "s1 = ls(''axis_0_LEFT'' \<mapsto> True)"
  define s3 where "s3 = s1(''axis_0_LEFT'' := None, ''axis_0_RIGHT'' := None)"
  note pl = axis_pressed_returns [where mp = mp and name = "''LEFT''" and combo = l and b = b
      and f = f and sent = sl and key = "''axis_0_LEFT''", OF l]
  note pr = axis_pressed_returns [where mp = mp and name = "''RIGHT''" and combo = r and b = b
      and f = f and sent = sr and key = "''axis_0_RIGHT''", OF r]
  have r1: "handle_event b f mp e1 ls = (s1, [l], None)"
    using v1 i by (simp add: handle_axis0 [OF a(1)] pl s1_def)
  have r2: "handle_event b f mp e2 s1 = (s1, [], None)"
    using v2 by (simp add: handle_axis0 [OF a(2)] pl s1_def inactive_def)
  have r3: "handle_event b f mp e3 s1 = (s3, [], None)"
    using v3 by (simp add: handle_axis0 [OF a(3)] s3_def)
  have r4: "handle_event b f mp e4 s3 = (s3(''axis_0_RIGHT'' \<mapsto> True), [r], None)"
    using v1 v4 by (simp add: handle_axis0 [OF a(4)] pr s3_def inactive_def)
  have e: "s3(''axis_0_RIGHT'' \<mapsto> True) = ls(''axis_0_LEFT'' := None, ''axis_0_RIGHT'' \<mapsto> True)"
    by (auto simp: s3_def s1_def fun_eq_iff)
  have e3: "s3 = ls(''axis_0_LEFT'' := None, ''axis_0_RIGHT'' := None)"
    by (auto simp: s3_def s1_def fun_eq_iff)
  show ?thesis by (simp add: r1 r2 r3 r4 e e3 [symmetric])
qed

text \<open>
  Claim C3 at the raw values \<open>-32767, -19660, 0, 19660\<close> on axis 0 (normalized \<open>-1\<close>,
  about \<open>-0.6\<close>, \<open>0\<close> and about \<open>0.6\<close>), from a fresh state with the default mappings.
  Under PyQt6 the dispatch of \<open>Left\<close> raises \<open>AttributeError\<close> while \<open>special_keys\<close> is
  built: the flag of the left direction is not written, the exception leaves the read
  loop, and the other three records are not handled, so RIGHT is never dispatched. Where
  every name is there, LEFT and RIGHT are dispatched as the claim says.
\<close>

theorem axis_sequence_dispatch_raises:
  "map_of DEFAULT_MAPPINGS ''LEFT'' = Some ''Left''
   \<and> send_key_event pyqt6 (Some (0::nat)) ''Left'' = Inl Attribute_error
   \<and> fst (snd (handle_events pyqt6 (Some (0::nat)) (map_of DEFAULT_MAPPINGS)
        [axis0 (- 32767), axis0 (- 19660), axis0 0, axis0 19660] Map.empty)) = [''Left'']
   \<and> snd (snd (handle_events pyqt6 (Some (0::nat)) (map_of DEFAULT_MAPPINGS)
        [axis0 (- 32767), axis0 (- 19660), axis0 0, axis0 19660] Map.empty)) = Some Attribute_error
   \<and> fst (handle_events pyqt6 (Some (0::nat)) (map_of DEFAULT_MAPPINGS)
        [axis0 (- 32767), axis0 (- 19660), axis0 0, axis0 19660] Map.empty) ''axis_0_LEFT'' = None
   \<and> snd (read_loop pyqt6 (Some (0::nat)) (map_of DEFAULT_MAPPINGS)
        [Read_bytes [0, 0, 0, 0, 0x01, 0x80, 2, 0], Read_bytes [0, 0, 0, 0, 0x34, 0xB3, 2, 0],
         Read_bytes [0, 0, 0, 0, 0, 0, 2, 0], Read_bytes [0, 0, 0, 0, 0xCC, 0x4C, 2, 0]] Map.empty)
       = ([''Left''], Some Attribute_error)
   \<and> snd (handle_events qt_all_names (Some (0::nat)) (map_of DEFAULT_MAPPINGS)
        [axis0 (- 32767), axis0 (- 19660), axis0 0, axis0 19660] Map.empty)
       = ([''Left'', ''Right''], None)"
  by code_simp

section \<open>Short reads\<close>

lemma unpack_full: "length d = EVENT_SIZE \<Longrightarrow> \<exists>e. unpack d = Some e"
  by (cases d rule: unpack.cases) (simp_all add: EVENT_SIZE_def)

lemma build_special_keys_exc: "build_special_keys b tbl = Inl x \<Longrightarrow> x = Attribute_error"
  by (induction b tbl rule: build_special_keys.induct)
    (auto simp: qt_attribute_def split: sum.splits if_splits)

lemma get_key_code_exc: "get_key_code b key = Inl x \<Longrightarrow> x = Attribute_error"
  by (auto simp: get_key_code_def Let_def dest: build_special_keys_exc split: if_splits sum.splits)

lemma send_key_event_exc: "send_key_event b f combo = Inl x \<Longrightarrow> x = Attribute_error"
  by (auto simp: send_key_event_def Let_def qkeyevent_attribute_def dest: get_key_code_exc
      split: if_splits option.splits sum.splits)

lemma dispatch_exc: "snd (dispatch b f mp name) = Some x \<Longrightarrow> x = Attribute_error"
  by (auto simp: dispatch_def dest: send_key_event_exc split: option.splits if_splits sum.splits)

lemma handle_event_exc: "snd (snd (handle_event b f mp e ls)) = Some x \<Longrightarrow> x = Attribute_error"
  by (auto simp: handle_event_def button_branch_def axis_branch_def axis_pressed_def Let_def
      dest: dispatch_exc split: if_splits option.splits)

lemma read_loop_short:
  assumes "short = Read_none \<or> (\<exists>d. short = Read_bytes d \<and> length d < EVENT_SIZE)"
  shows "read_loop b f mp (short # rest) ls = (ls, [], None)"
  using assms by auto

lemma read_loop_cut:
  assumes "\<forall>d\<in>set full. length d = EVENT_SIZE"
    and "short = Read_none \<or> (\<exists>d. short = Read_bytes d \<and> length d < EVENT_SIZE)"
  shows "read_loop b f mp (map Read_bytes full @ short # rest) ls =
    read_loop b f mp (map Read_bytes full) ls"
  using assms(1)
proof (induction full arbitrary: ls)
  case Nil
  then show ?case using read_loop_short [OF assms(2)] by simp
next
  case (Cons d full)
  have len: "length d = EVENT_SIZE" and lens: "\<forall>d\<in>set full. length d = EVENT_SIZE"
    using Cons.prems by simp_all
  have ne: "d \<noteq> []" using len by (auto simp: EVENT_SIZE_def)
  obtain e where u: "unpack d = Some e" using unpack_full [OF len] by blast
  show ?case
    using Cons.IH [OF lens] by (simp add: u len ne Let_def split: option.splits)
qed

lemma read_loop_full:
  assumes "map unpack full = map Some es" "\<forall>d\<in>set full. length d = EVENT_SIZE"
  shows "read_loop b f mp (map Read_bytes full) ls = handle_events b f mp es ls"
  using assms
proof (induction full arbitrary: es ls)
  case Nil
  then show ?case by simp
next
  case (Cons d full)
  from Cons.prems(1) obtain e es' where es: "es = e # es'" and u: "unpack d = Some e"
    and rest: "map unpack full = map Some es'"
    by (cases es) auto
  have len: "length d = EVENT_SIZE" and lens: "\<forall>d\<in>set full. length d = EVENT_SIZE"
    using Cons.prems(2) by simp_all
  have ne: "d \<noteq> []" using len by (auto simp: EVENT_SIZE_def)
  show ?case
  proof (cases "snd (snd (handle_event b f mp e ls))")
    case None
    then show ?thesis using Cons.IH [OF rest lens] by (simp add: es u len ne Let_def)
  next
    case (Some x)
    then have "x = Attribute_error" by (rule handle_event_exc)
    then show ?thesis using Some by (simp add: es u len ne Let_def prod_eq_iff)
  qed
qed

lemma those_unpack:
  assumes "\<forall>d\<in>set full. length d = EVENT_SIZE"
  shows "\<exists>es. map unpack full = map Some es"
  using assms
proof (induction full)
  case Nil
  then show ?case by simp
next
  case (Cons d full)
  then obtain es where "map unpack full = map Some es" by auto
  moreover obtain e where "unpack d = Some e" using unpack_full [of d] Cons.prems by auto
  ultimately have "map unpack (d # full) = map Some (e # es)" by simp
  then show ?case by blast
qed

text \<open>
  Claim C8. When a read gives nothing or fewer bytes than a record, the tick ends there
  without an exception of its own, and that read changes no state and dispatches nothing,
  whatever the device would give afterwards. The result of the tick is that of the reads
  of full records before it alone: these are handled as usual, in order, with their
  dispatches and, should a dispatch raise, its exception. On a remapper whose device is
  open, \<open>process_controller_input\<close> stores the state so reached.
\<close>

theorem short_read_ends_tick:
  assumes "\<forall>d\<in>set full. length d = EVENT_SIZE"
    and "short = Read_none \<or> (\<exists>d. short = Read_bytes d \<and> length d < EVENT_SIZE)"
  shows "read_loop b f mp (short # rest) ls = (ls, [], None)
      \<and> read_loop b f mp (map Read_bytes full @ short # rest) ls =
          read_loop b f mp (map Read_bytes full) ls
      \<and> (\<exists>es. map unpack full = map Some es
            \<and> read_loop b f mp (map Read_bytes full @ short # rest) ls = handle_events b f mp es ls)
      \<and> (js_device s \<noteq> None \<longrightarrow>
            process_controller_input b f s (short # rest) = (s, [], None)
          \<and> process_controller_input b f s (map Read_bytes full @ short # rest) =
              (s\<lparr>last_state := fst (read_loop b f (map_of (mappings s)) (map Read_bytes full)
                    (last_state s))\<rparr>,
               snd (read_loop b f (map_of (mappings s)) (map Read_bytes full) (last_state s))))"
proof -
  have sh: "read_loop b' f' mp' (short # rest) ls' = (ls', [], None)" for b' f' mp' ls'
    by (rule read_loop_short [OF assms(2)])
  have cut: "read_loop b' f' mp' (map Read_bytes full @ short # rest) ls' =
      read_loop b' f' mp' (map Read_bytes full) ls'" for b' f' mp' ls'
    by (rule read_loop_cut [OF assms])
  obtain es where es: "map unpack full = map Some es"
    using those_unpack [OF assms(1)] by blast
  have full: "read_loop b f mp (map Read_bytes full @ short # rest) ls = handle_events b f mp es ls"
    by (simp only: cut read_loop_full [OF es assms(1)])
  have p1: "process_controller_input b f s (short # rest) = (s, [], None)"
    if "js_device s \<noteq> None"
  proof -
    from that obtain p where "js_device s = Some p" by auto
    then show ?thesis by (simp add: process_controller_input_def sh)
  qed
  have p2: "process_controller_input b f s (map Read_bytes full @ short # rest) =
      (s\<lparr>last_state := fst (read_loop b f (map_of (mappings s)) (map Read_bytes full)
            (last_state s))\<rparr>,
       snd (read_loop b f (map_of (mappings s)) (map Read_bytes full) (last_state s)))"
    if "js_device s \<noteq> None"
  proof -
    from that obtain p where "js_device s = Some p" by auto
    then show ?thesis by (simp add: process_controller_input_def cut Let_def)
  qed
  show ?thesis
  proof (intro conjI impI)
    show "read_loop b f mp (short # rest) ls = (ls, [], None)" by (rule sh)
    show "read_loop b f mp (map Read_bytes full @ short # rest) ls =
        read_loop b f mp (map Read_bytes full) ls" by (rule cut)
    show "\<exists>es. map unpack full = map Some es
        \<and> read_loop b f mp (map Read_bytes full @ short # rest) ls = handle_events b f mp es ls"
      using es full by blast
    show "process_controller_input b f s (short # rest) = (s, [], None)"
      if "js_device s \<noteq> None" using that by (rule p1)
    show "process_controller_input b f s (map Read_bytes full @ short # rest) =
        (s\<lparr>last_state := fst (read_loop b f (map_of (mappings s)) (map Read_bytes full)
              (last_state s))\<rparr>,
         snd (read_loop b f (map_of (mappings s)) (map Read_bytes full) (last_state s)))"
      if "js_device s \<noteq> None" using that by (rule p2)
  qed
qed

text \<open>
  A full record for button X, then three stray bytes, then more data left unread, on a
  remapper whose device is open: the record is handled and nothing after it.
\<close>

theorem short_read_ends_tick_witness:
  "length [0, 0, 0, 0, 1, 0, 1, 2 :: 8 word] = EVENT_SIZE
   \<and> length [1, 2, 3 :: 8 word] < EVENT_SIZE
   \<and> js_device opened \<noteq> None
   \<and> read_loop pyqt6 (Some (0::nat)) (map_of DEFAULT_MAPPINGS)
        (Read_bytes [1, 2, 3] # [press_X]) Map.empty = (Map.empty, [], None)
   \<and> process_controller_input pyqt6 (Some (0::nat)) opened (Read_bytes [1, 2, 3] # [press_X]) =
        (opened, [], None)
   \<and> snd (process_controller_input pyqt6 (Some (0::nat)) opened
        (map Read_bytes [[0, 0, 0, 0, 1, 0, 1, 2]] @ Read_bytes [1, 2, 3] # [press_X]))
      = ([''z''], None)
   \<and> last_state (fst (process_controller_input pyqt6 (Some (0::nat)) opened
        (map Read_bytes [[0, 0, 0, 0, 1, 0, 1, 2]] @ Read_bytes [1, 2, 3] # [press_X])))
        ''button_2'' = Some True"
proof -
  have h1: "\<forall>d\<in>set [[0, 0, 0, 0, 1, 0, 1, 2 :: 8 word]]. length d = EVENT_SIZE"
    by (simp add: EVENT_SIZE_def)
  have f: "length [0, 0, 0, 0, 1, 0, 1, 2 :: 8 word] = EVENT_SIZE" by (simp add: EVENT_SIZE_def)
  have l: "length [1, 2, 3 :: 8 word] < EVENT_SIZE" by (simp add: EVENT_SIZE_def)
  then have h2: "Read_bytes [1, 2, 3] = Read_none
      \<or> (\<exists>d. Read_bytes [1, 2, 3] = Read_bytes d \<and> length d < EVENT_SIZE)"
    by blast
  have o: "js_device opened \<noteq> None" by (simp add: opened_def)
  have m: "mappings opened = DEFAULT_MAPPINGS" by (simp add: opened_def remapper_init_def)
  define R where "R = read_loop pyqt6 (Some (0::nat)) (map_of DEFAULT_MAPPINGS)
      (map Read_bytes [[0, 0, 0, 0, 1, 0, 1, 2]]) (last_state opened)"
  have r: "snd R = ([''z''], None)" unfolding R_def by code_simp
  have k: "fst R ''button_2'' = Some True" unfolding R_def by code_simp
  note t = short_read_ends_tick [OF h1 h2, of pyqt6 "Some (0::nat)" "map_of DEFAULT_MAPPINGS"
      "[press_X]" Map.empty opened]
  from t have a: "read_loop pyqt6 (Some (0::nat)) (map_of DEFAULT_MAPPINGS)
        (Read_bytes [1, 2, 3] # [press_X]) Map.empty = (Map.empty, [], None)"
    by blast
  from t o have c: "process_controller_input pyqt6 (Some (0::nat)) opened
      (Read_bytes [1, 2, 3] # [press_X]) = (opened, [], None)"
    by blast
  from t o have "process_controller_input pyqt6 (Some (0::nat)) opened
        (map Read_bytes [[0, 0, 0, 0, 1, 0, 1, 2]] @ Read_bytes [1, 2, 3] # [press_X]) =
      (opened\<lparr>last_state := fst (read_loop pyqt6 (Some (0::nat)) (map_of (mappings opened))
            (map Read_bytes [[0, 0, 0, 0, 1, 0, 1, 2]]) (last_state opened))\<rparr>,
       snd (read_loop pyqt6 (Some (0::nat)) (map_of (mappings opened))
            (map Read_bytes [[0, 0, 0, 0, 1, 0, 1, 2]]) (last_state opened)))"
    by blast
  then have d: "process_controller_input pyqt6 (Some (0::nat)) opened
        (map Read_bytes [[0, 0, 0, 0, 1, 0, 1, 2]] @ Read_bytes [1, 2, 3] # [press_X]) =
      (opened\<lparr>last_state := fst R\<rparr>, snd R)"
    by (simp only: m R_def)
  have d1: "snd (process_controller_input pyqt6 (Some (0::nat)) opened
        (map Read_bytes [[0, 0, 0, 0, 1, 0, 1, 2]] @ Read_bytes [1, 2, 3] # [press_X]))
      = ([''z''], None)"
    by (simp only: d snd_conv r)
  have d2: "last_state (fst (process_controller_input pyqt6 (Some (0::nat)) opened
        (map Read_bytes [[0, 0, 0, 0, 1, 0, 1, 2]] @ Read_bytes [1, 2, 3] # [press_X])))
        ''button_2'' = Some True"
    unfolding d using k by simp
  show ?thesis using f l o a c d1 d2 by blast
qed

section \<open>Keys that do not resolve\<close>

lemma lower_char_idem: "lower_char (lower_char c) = lower_char c"
  by (auto simp: lower_char_def Let_def)

lemma lower_idem: "lower (lower s) = lower s"
  by (simp add: lower_def lower_char_idem)

lemma spec_key_token:
  assumes "spec_key combo = Some k"
  shows "k \<in> set (tokens combo) \<and> k \<notin> set modifier_words"
proof -
  from assms obtain t ts where f: "filter (\<lambda>t. t \<notin> set modifier_words) (tokens combo) = t # ts"
    and k: "k = last (t # ts)"
    by (auto simp: spec_key_def split: list.splits)
  have "k \<in> set (t # ts)" unfolding k by (rule last_in_set) simp
  then have "k \<in> set (filter (\<lambda>t. t \<notin> set modifier_words) (tokens combo))" by (simp only: f)
  then show ?thesis by simp
qed

lemma spec_key_lower:
  assumes "spec_key combo = Some k"
  shows "lower k = k"
proof -
  from spec_key_token [OF assms] obtain p where "k = lower (strip p)"
    by (auto simp: tokens_def)
  then show ?thesis by (simp add: lower_idem)
qed

lemma build_special_keys_present:
  assumes "\<forall>a\<in>set (map snd tbl). qt_has b (code_points a)"
  shows "build_special_keys b tbl = Inr (map (\<lambda>ka. (fst ka, Key_attr (code_points (snd ka)))) tbl)"
  using assms
  by (induction b tbl rule: build_special_keys.induct) (simp_all add: qt_attribute_def)

lemma get_key_code_None:
  assumes "\<forall>a\<in>set (map snd special_key_names). qt_has b (code_points a)"
    and "lower k = k" "length k = 1 \<longrightarrow> \<not> qt_has b (code_points ''Key_'' @ upper k)"
    and "k \<notin> set (map fst special_key_names)"
  shows "get_key_code b k = Inr None"
proof (cases "length k = 1")
  case True
  then show ?thesis using assms(3) by (simp add: get_key_code_def qt_getattr_def)
next
  case False
  have "map_of (map (\<lambda>ka. (fst ka, Key_attr (code_points (snd ka)))) special_key_names) k = None"
    using assms(4) by (simp add: map_of_eq_None_iff image_image)
  then show ?thesis
    using False assms(2) by (simp add: get_key_code_def build_special_keys_present [OF assms(1)])
qed

text \<open>
  What claim C7 says holds where the binding has the names of the special keys: a
  primary key that is neither a single character resolved by \<open>getattr\<close> nor the name of
  a special key sends nothing and raises nothing.
\<close>

lemma unresolved_no_event:
  assumes "\<forall>a\<in>set (map snd special_key_names). qt_has b (code_points a)"
    and "\<forall>k. snd (parse_key_combination combo) = Some k \<longrightarrow>
      \<not> (length k = 1 \<and> qt_has b (code_points ''Key_'' @ upper k))
      \<and> k \<notin> set (map fst special_key_names)"
  shows "send_key_event b focus combo = Inr []"
proof (cases "snd (parse_key_combination combo)")
  case None
  then show ?thesis by (simp add: send_key_event_def)
next
  case (Some k)
  have "lower k = k" using Some by (simp add: parse_key spec_key_lower)
  moreover have "length k = 1 \<longrightarrow> \<not> qt_has b (code_points ''Key_'' @ upper k)"
    using assms(2) Some by simp
  moreover have "k \<notin> set (map fst special_key_names)" using assms(2) Some by simp
  ultimately have "get_key_code b k = Inr None" by (intro get_key_code_None assms(1))
  then show ?thesis using Some by (simp add: send_key_event_def Let_def)
qed

text \<open>
  Claim C7 at its own example. \<open>Ctrl+Unknown123\<close> parses to the key \<open>unknown123\<close>, which
  is no special key. Under PyQt6 \<open>get_key_code\<close> raises \<open>AttributeError\<close> for it while
  it builds \<open>special_keys\<close>, so \<open>send_key_event\<close> raises, with or without a focused
  widget, and a button mapped to the combo ends the read loop with the exception and its
  flag unset. Where \<open>Qt\<close> has the old names the combo sends nothing and raises nothing.
\<close>

theorem unknown_key_raises:
  "parse_key_combination ''Ctrl+Unknown123'' = ([''ctrl''], Some ''unknown123'')
   \<and> ''unknown123'' \<notin> set (map fst special_key_names)
   \<and> get_key_code pyqt6 ''unknown123'' = Inl Attribute_error
   \<and> send_key_event pyqt6 (Some (0::nat)) ''Ctrl+Unknown123'' = Inl Attribute_error
   \<and> send_key_event pyqt6 (None :: nat option) ''Ctrl+Unknown123'' = Inl Attribute_error
   \<and> snd (handle_event pyqt6 (Some (0::nat)) [''X'' \<mapsto> ''Ctrl+Unknown123''] (button_record 2 1)
        Map.empty) = ([''Ctrl+Unknown123''], Some Attribute_error)
   \<and> send_key_event qt_keys_only (Some (0::nat)) ''Ctrl+Unknown123'' = Inr []"
  by code_simp

section \<open>The blank combo\<close>

text \<open>
  A combo whose pieces are all modifier words or trim to the empty string sends nothing
  and raises nothing, whatever the binding: the empty key is dropped before any key code
  is looked up.
\<close>

lemma blank_tokens_no_event:
  assumes "\<forall>p\<in>set (split_plus combo). lower (strip p) \<in> set modifier_words \<or> strip p = []"
  shows "send_key_event b focus combo = Inr []"
proof (cases "snd (parse_key_combination combo)")
  case None
  then show ?thesis by (simp add: send_key_event_def)
next
  case (Some k)
  then have "spec_key combo = Some k" by (simp add: parse_key)
  from spec_key_token [OF this] obtain p where p: "p \<in> set (split_plus combo)"
    and k: "k = lower (strip p)" and nm: "k \<notin> set modifier_words"
    by (auto simp: tokens_def)
  from assms p k nm have "strip p = []" by auto
  then have "k = []" by (simp add: k lower_def)
  then show ?thesis using Some by (simp add: send_key_event_def)
qed

text \<open>
  Claim C10. The default combo of button A is a single blank; it parses to the empty
  key and sends nothing, under every binding. But the key code of the empty string is
  \<open>None\<close> only where \<open>Qt\<close> has the old names: under PyQt6 \<open>get_key_code\<close> raises for
  it. And the named token \<open>space\<close> sends a space only where \<open>Qt\<close> and \<open>QKeyEvent\<close>
  both have the old names: under PyQt6 it raises in \<open>get_key_code\<close>, and with the old
  names on \<open>Qt\<close> alone it raises at \<open>QKeyEvent.KeyPress\<close>.
\<close>

theorem space_never_sent:
  "map_of DEFAULT_MAPPINGS ''A'' = Some '' ''
   \<and> parse_key_combination '' '' = ([], Some [])
   \<and> send_key_event pyqt6 (Some (0::nat)) '' '' = Inr []
   \<and> send_key_event qt_all_names (Some (0::nat)) '' '' = Inr []
   \<and> get_key_code pyqt6 [] = Inl Attribute_error
   \<and> get_key_code qt_keys_only [] = Inr None
   \<and> send_key_event pyqt6 (Some (0::nat)) ''space'' = Inl Attribute_error
   \<and> send_key_event qt_keys_only (Some (0::nat)) ''space'' = Inl Attribute_error
   \<and> send_key_event qt_all_names (Some (0::nat)) ''space'' =
        Inr [(0, KeyPress, Key_attr (code_points ''Key_Space''), {}),
             (0, KeyRelease, Key_attr (code_points ''Key_Space''), {})]"
  by code_simp

end
